theory Spec2Isabelle
  imports Complex_Main "HOL-Library.Word"
begin

section \<open>The DeepState test-case reducer (bin/deepstate/reducer.py)\<close>

text \<open>
  The reducer shrinks a failing test input (a byte sequence) by proposing mutations,
  running the instrumented test binary on each and keeping the first mutation whose
  output still satisfies the reduction criteria. The test binary and the wall clock are
  external: they are parameters of the model (an oracle from the bytes of a candidate
  to the lines it prints, and the elapsed time read at each run). Python exceptions are
  values of the type \<open>exn\<close>; printing is not modelled, apart from the one diagnostic
  that goes with the exit status 1.
\<close>

subsection \<open>Python values\<close>

datatype exn =
  TimeoutException | IndexError | UnboundLocalError | ValueError | TypeError | AssertionError
  | ZeroDivisionError

type_synonym byte = "8 word"
type_synonym bytes = "byte list"
type_synonym trace = "string list"

text \<open>\<open>xs[i]\<close> on a sequence of length \<open>n\<close>: a negative index counts from the end,
  an index outside \<open>-n .. n-1\<close> raises IndexError (here \<open>None\<close>).\<close>

definition py_index :: "nat \<Rightarrow> int \<Rightarrow> nat option" where
  "py_index n i =
     (if 0 \<le> i \<and> i < int n then Some (nat i)
      else if - int n \<le> i \<and> i < 0 then Some (nat (int n + i))
      else None)"

text \<open>A slice bound: negative bounds count from the end, and every bound is clamped
  to \<open>0 .. n\<close>; slicing never raises.\<close>

definition py_bound :: "nat \<Rightarrow> int \<Rightarrow> nat" where
  "py_bound n i = (if i < 0 then nat (int n + i) else min (nat i) n)"

definition slice_to :: "'a list \<Rightarrow> int \<Rightarrow> 'a list" where
  "slice_to xs hi = take (py_bound (length xs) hi) xs"

definition slice_from :: "'a list \<Rightarrow> int \<Rightarrow> 'a list" where
  "slice_from xs lo = drop (py_bound (length xs) lo) xs"

definition slice :: "'a list \<Rightarrow> int \<Rightarrow> int \<Rightarrow> 'a list" where
  "slice xs lo hi =
     (let l = py_bound (length xs) lo; h = py_bound (length xs) hi
      in take (h - l) (drop l xs))"

text \<open>\<open>needle in line\<close> on strings.\<close>

fun starts_with :: "string \<Rightarrow> string \<Rightarrow> bool" where
  "starts_with [] line = True"
| "starts_with (a # as) [] = False"
| "starts_with (a # as) (c # cs) = (a = c \<and> starts_with as cs)"

fun py_in :: "string \<Rightarrow> string \<Rightarrow> bool" where
  "py_in needle [] = (needle = [])"
| "py_in needle (c # cs) = (starts_with needle (c # cs) \<or> py_in needle cs)"

text \<open>\<open>line.split()\<close>: the maximal runs of characters that are not white space. The white
  space of a Python 3 string, for code points below 256.\<close>

definition is_space :: "char \<Rightarrow> bool" where
  "is_space c = ((of_char c :: nat) \<in> {9, 10, 11, 12, 13, 28, 29, 30, 31, 32, 133, 160})"

fun split_from :: "string \<Rightarrow> string \<Rightarrow> string list" where
  "split_from tok [] = (if tok = [] then [] else [tok])"
| "split_from tok (c # cs) =
     (if is_space c then (if tok = [] then split_from [] cs else tok # split_from [] cs)
      else split_from (tok @ [c]) cs)"

definition py_split :: "string \<Rightarrow> string list" where
  "py_split line = split_from [] line"

text \<open>\<open>int(token)\<close> in base ten: an optional sign, then ASCII digits, where single
  underscores may separate digits; anything else raises ValueError (here \<open>None\<close>).\<close>

definition digit :: "char \<Rightarrow> int option" where
  "digit c = (let n = (of_char c :: nat) in if 48 \<le> n \<and> n \<le> 57 then Some (int n - 48) else None)"

fun py_digits :: "int \<Rightarrow> string \<Rightarrow> int option" where
  "py_digits acc [] = Some acc"
| "py_digits acc (c # cs) =
     (if c = CHR ''_'' then
        (case cs of [] \<Rightarrow> None
         | d # ds \<Rightarrow> (case digit d of None \<Rightarrow> None | Some v \<Rightarrow> py_digits (10 * acc + v) ds))
      else (case digit c of None \<Rightarrow> None | Some v \<Rightarrow> py_digits (10 * acc + v) cs))"

definition py_unsigned :: "string \<Rightarrow> int option" where
  "py_unsigned tok =
     (case tok of [] \<Rightarrow> None
      | c # cs \<Rightarrow> (case digit c of None \<Rightarrow> None | Some v \<Rightarrow> py_digits v cs))"

definition py_int :: "string \<Rightarrow> int option" where
  "py_int tok =
     (case tok of [] \<Rightarrow> None
      | c # cs \<Rightarrow>
          if c = CHR ''-'' then map_option uminus (py_unsigned cs)
          else if c = CHR ''+'' then py_unsigned cs
          else py_unsigned tok)"

text \<open>\<open>int(line.split()[-1])\<close>: IndexError on a line of white space only, ValueError when
  the last token is not a number.\<close>

definition last_int :: "string \<Rightarrow> exn + int" where
  "last_int line =
     (case py_split line of [] \<Rightarrow> Inl IndexError
      | t # ts \<Rightarrow> (case py_int (last (t # ts)) of None \<Rightarrow> Inl ValueError | Some n \<Rightarrow> Inr n))"

subsection \<open>Criteria Checker: \<open>checks\<close>\<close>

text \<open>\<open>checkString\<close> is \<open>args.criteria\<close>; \<open>if checkString\<close> is false for \<open>None\<close> and for the
  empty string.\<close>

fun checks :: "string option \<Rightarrow> trace \<Rightarrow> bool" where
  "checks checkString [] = False"
| "checks checkString (line # result) =
     (case checkString of
        Some (c # cs) \<Rightarrow> (if py_in (c # cs) line then True else checks checkString result)
      | _ \<Rightarrow>
          (if py_in ''ERROR: Failed:'' line then True
           else if py_in ''ERROR: Crashed'' line then True
           else checks checkString result))"

subsection \<open>Feedback Parser: \<open>structure\<close> and \<open>rangeConversions\<close>\<close>

text \<open>The loop of \<open>structure\<close>, threading its three locals: \<open>OneOfs\<close>, the stack \<open>currentOneOf\<close>
  and \<open>lastRead\<close>, which is unbound (\<open>None\<close>) until the first byte-read line. Reading an
  unbound local raises UnboundLocalError, \<open>currentOneOf[-1]\<close> on an empty stack raises
  IndexError.\<close>

fun structure_loop ::
  "trace \<Rightarrow> (int \<times> int) list \<Rightarrow> int list \<Rightarrow> int option \<Rightarrow> exn + ((int \<times> int) list \<times> int)" where
  "structure_loop [] OneOfs currentOneOf lastRead =
     (case lastRead of None \<Rightarrow> Inl UnboundLocalError | Some l \<Rightarrow> Inr (OneOfs, l))"
| "structure_loop (line # result) OneOfs currentOneOf lastRead =
     (if py_in ''STARTING OneOf CALL'' line then
        structure_loop result OneOfs (currentOneOf @ [- 1]) lastRead
      else if py_in ''Reading byte at'' line then
        (case last_int line of Inl e \<Rightarrow> Inl e
         | Inr l \<Rightarrow>
             structure_loop result OneOfs
               (if length currentOneOf > 0 \<and> last currentOneOf = - 1
                then butlast currentOneOf @ [l] else currentOneOf)
               (Some l))
      else if py_in ''FINISHED OneOf CALL'' line then
        (if currentOneOf = [] then Inl IndexError
         else (case lastRead of None \<Rightarrow> Inl UnboundLocalError
               | Some l \<Rightarrow>
                   structure_loop result (OneOfs @ [(last currentOneOf, l)])
                     (butlast currentOneOf) lastRead))
      else structure_loop result OneOfs currentOneOf lastRead)"

text \<open>\<open>structure(result)\<close>; \<open>noStructure\<close> is \<open>args.noStructure\<close> and \<open>currentTest\<close> the
  global it reads.\<close>

definition "structure" :: "bool \<Rightarrow> bytes \<Rightarrow> trace \<Rightarrow> exn + ((int \<times> int) list \<times> int)" where
  "structure noStructure currentTest result =
     (if noStructure then Inr ([], int (length currentTest))
      else structure_loop result [] [] None)"

text \<open>A conversion is \<open>(currentMulti, value)\<close> with \<open>currentMulti = (multiFirst, lastRead)\<close>;
  \<open>multiFirst\<close> may be Python's \<open>None\<close>.\<close>

type_synonym conversion = "(int option \<times> int) \<times> int"

text \<open>The loop of \<open>rangeConversions\<close>. Its locals \<open>lastRead\<close> and \<open>currentMulti\<close> are unbound
  at first (the outer \<open>option\<close>); the four tests of a line are independent \<open>if\<close>s and run
  in the order of the source.\<close>

fun rangeConversions_loop ::
  "trace \<Rightarrow> conversion list \<Rightarrow> bool \<Rightarrow> int option \<Rightarrow> int option \<Rightarrow> (int option \<times> int) option
     \<Rightarrow> exn + conversion list" where
  "rangeConversions_loop [] conversions startedMulti multiFirst lastRead currentMulti =
     Inr conversions"
| "rangeConversions_loop (line # result) conversions startedMulti multiFirst lastRead currentMulti =
     (case (if py_in ''Reading byte at'' line then map_sum id Some (last_int line)
            else Inr lastRead) of
        Inl e \<Rightarrow> Inl e
      | Inr lastRead1 \<Rightarrow>
         (let startedMulti1 = (if py_in ''STARTING MULTI-BYTE READ'' line then True else startedMulti);
              multiFirst1 =
                (if startedMulti1 \<and> multiFirst = None \<and> py_in ''Reading byte at'' line
                 then lastRead1 else multiFirst)
          in case (if py_in ''FINISHED MULTI-BYTE READ'' line then
                     (case lastRead1 of None \<Rightarrow> Inl UnboundLocalError
                      | Some l \<Rightarrow> Inr (Some (multiFirst1, l), False, None))
                   else Inr (currentMulti, startedMulti1, multiFirst1)) of
               Inl e \<Rightarrow> Inl e
             | Inr (currentMulti2, startedMulti2, multiFirst2) \<Rightarrow>
                 (if py_in ''Converting out-of-range value'' line then
                    (case currentMulti2 of None \<Rightarrow> Inl UnboundLocalError
                     | Some cm \<Rightarrow>
                         (case last_int line of Inl e \<Rightarrow> Inl e
                          | Inr v \<Rightarrow>
                              rangeConversions_loop result (conversions @ [(cm, v)])
                                startedMulti2 multiFirst2 lastRead1 currentMulti2))
                  else rangeConversions_loop result conversions
                         startedMulti2 multiFirst2 lastRead1 currentMulti2)))"

definition rangeConversions :: "trace \<Rightarrow> exn + conversion list" where
  "rangeConversions result = rangeConversions_loop result [] False None None None"

subsection \<open>Conversion normalization: \<open>fixRangeConversions\<close>\<close>

text \<open>\<open>for b in range(pos[0], pos[1]): test[b] = 0\<close>, on the list of the values of \<open>b\<close>.\<close>

fun zero_range :: "bytes \<Rightarrow> int list \<Rightarrow> exn + bytes" where
  "zero_range test [] = Inr test"
| "zero_range test (b # bs) =
     (case py_index (length test) b of
        None \<Rightarrow> Inl IndexError
      | Some i \<Rightarrow> zero_range (test[i := 0]) bs)"

text \<open>The loop over the conversions. It mutates \<open>test\<close> in place; the model returns the
  new bytes. \<open>break\<close> ends the loop at the first conversion whose end offset is not below
  the length. \<open>range(None, e)\<close> raises TypeError, storing a negative value in a bytearray
  raises ValueError. The count \<open>numConversions\<close> is only printed.\<close>

fun fixRangeConversions_loop :: "bytes \<Rightarrow> conversion list \<Rightarrow> exn + bytes" where
  "fixRangeConversions_loop test [] = Inr test"
| "fixRangeConversions_loop test (((pos0, pos1), v) # conversions) =
     (if pos1 \<ge> int (length test) then Inr test
      else if v < 255 then
        (case py_index (length test) pos1 of
           None \<Rightarrow> Inl IndexError
         | Some e \<Rightarrow>
             if v < uint (test ! e) then
               (case pos0 of
                  None \<Rightarrow> Inl TypeError
                | Some a \<Rightarrow>
                    (case zero_range test [a..pos1 - 1] of
                       Inl x \<Rightarrow> Inl x
                     | Inr zeroed \<Rightarrow>
                         if v < 0 then Inl ValueError
                         else fixRangeConversions_loop (zeroed[e := word_of_int v]) conversions))
             else fixRangeConversions_loop test conversions)
      else fixRangeConversions_loop test conversions)"

definition fixRangeConversions :: "bool \<Rightarrow> bytes \<Rightarrow> conversion list \<Rightarrow> exn + bytes" where
  "fixRangeConversions noStructure test conversions =
     (if noStructure then Inr test else fixRangeConversions_loop test conversions)"

subsection \<open>The run of the reducer: options, environment, state\<close>

text \<open>The command-line options that decide what the reducer does. \<open>--verbose\<close> only prints;
  \<open>--which_test\<close> and \<open>--fork\<close> only change the command line of the test binary, which is
  part of the test binary below.\<close>

record args =
  criteria :: "string option"
  search :: bool
  timeout :: int
  maxByteRange :: int
  fast :: bool
  slow :: bool
  slowest :: bool
  noStructure :: bool
  noPad :: bool

text \<open>What the reducer does not control: the bytes of the input file, the lines the test
  binary prints when run on a candidate (\<open>binary n b\<close> for the \<open>n\<close>-th call of
  \<open>runCandidate\<close>, on the bytes \<open>b\<close>), and the seconds elapsed since \<open>start\<close> when the
  \<open>n\<close>-th call of \<open>runCandidate\<close> reads the clock.\<close>

record world =
  input_test :: bytes
  binary :: "nat \<Rightarrow> bytes \<Rightarrow> trace"
  clock :: "nat \<Rightarrow> real"

text \<open>The history of a run, kept to state properties of it: the candidates run with
  the trace each gave, the writes to the output path, the reading of the input file.\<close>

datatype event = Ran bytes trace | Wrote bytes | ReadInput

text \<open>The variables shared by \<open>main\<close> and its nested functions (\<open>currentTest\<close>, \<open>s\<close>, \<open>r\<close>,
  \<open>candidateRuns\<close>), the output file (\<open>None\<close> until it is written) and the diagnostic
  printed with the exit status 1.\<close>

record rstate =
  currentTest :: bytes
  s :: "(int \<times> int) list \<times> int"
  r :: trace
  candidateRuns :: nat
  out :: "bytes option"
  diagnostics :: "string list"
  history :: "event list"

text \<open>\<open>runCandidate\<close>, on the bytes of the file it is given: it counts the run, raises
  TimeoutException when the elapsed time exceeds \<open>args.timeout\<close>, and otherwise returns the
  lines printed by the test binary. \<open>writeAndRunCandidate\<close> writes the candidate to the
  scratch file and runs it from there.\<close>

definition runCandidate :: "world \<Rightarrow> args \<Rightarrow> bytes \<Rightarrow> rstate \<Rightarrow> (exn + trace) \<times> rstate" where
  "runCandidate w a candidate st =
     (let st1 = st\<lparr>candidateRuns := candidateRuns st + 1\<rparr>
      in if clock w (candidateRuns st1) > real_of_int (timeout a) then (Inl TimeoutException, st1)
         else (let result = binary w (candidateRuns st1) candidate
               in (Inr result, st1\<lparr>history := history st1 @ [Ran candidate result]\<rparr>)))"

definition writeAndRunCandidate :: "world \<Rightarrow> args \<Rightarrow> bytes \<Rightarrow> rstate \<Rightarrow> (exn + trace) \<times> rstate" where
  "writeAndRunCandidate w a test st = runCandidate w a test st"

text \<open>\<open>updateCurrent(newTest)\<close>: the new candidate is normalized with the conversions of the
  trace \<open>r\<close>, written to the output path, and the structure is recomputed from \<open>r\<close>. An
  exception here is not a timeout, so the run ends with it; the state given with it is
  the one before the call that raised (nothing reads the state after that).\<close>

definition updateCurrent :: "args \<Rightarrow> bytes \<Rightarrow> rstate \<Rightarrow> exn option \<times> rstate" where
  "updateCurrent a newTest st =
     (let st1 = st\<lparr>currentTest := newTest\<rparr>
      in case rangeConversions (r st1) of
           Inl e \<Rightarrow> (Some e, st1)
         | Inr conversions \<Rightarrow>
             (case fixRangeConversions (noStructure a) (currentTest st1) conversions of
                Inl e \<Rightarrow> (Some e, st1)
              | Inr fixed \<Rightarrow>
                  (let st2 = st1\<lparr>currentTest := fixed, out := Some fixed,
                                  history := history st1 @ [Wrote fixed]\<rparr>
                   in case structure (noStructure a) (currentTest st2) (r st2) of
                        Inl e \<Rightarrow> (Some e, st2)
                      | Inr sv \<Rightarrow> (None, st2\<lparr>s := sv\<rparr>))))"

subsection \<open>First-improving-mutation search\<close>

text \<open>Every pass runs the same loop body on each mutation \<open>newTest\<close> it enumerates:
  \<open>r = writeAndRunCandidate(newTest)\<close>, then, if \<open>checks(r)\<close>, \<open>changed = True\<close>,
  \<open>updateCurrent(newTest)\<close> and \<open>break\<close>. \<open>trial\<close> is that body: \<open>Accepted\<close> when the loop is
  left with \<open>changed\<close> set, \<open>NotFound\<close> when it goes on to the next mutation.\<close>

datatype 'p found = Accepted 'p | NotFound | Raised exn

definition trial :: "world \<Rightarrow> args \<Rightarrow> bytes \<Rightarrow> rstate \<Rightarrow> unit found \<times> rstate" where
  "trial w a newTest st =
     (case writeAndRunCandidate w a newTest st of
        (Inl e, st1) \<Rightarrow> (Raised e, st1)
      | (Inr result, st1) \<Rightarrow>
          (let st2 = st1\<lparr>r := result\<rparr>
           in if checks (criteria a) result then
                (case updateCurrent a newTest st2 of
                   (Some e, st3) \<Rightarrow> (Raised e, st3)
                 | (None, st3) \<Rightarrow> (Accepted (), st3))
              else (NotFound, st2)))"

text \<open>One \<open>for\<close> loop of a pass. The candidate does not change before the \<open>break\<close>, so the
  mutations of the loop are a list computed when the loop starts; each comes with the
  loop variable the pass remembers on success.\<close>

fun sweep :: "world \<Rightarrow> args \<Rightarrow> ('p \<times> bytes) list \<Rightarrow> rstate \<Rightarrow> 'p found \<times> rstate" where
  "sweep w a [] st = (NotFound, st)"
| "sweep w a ((p, newTest) # rest) st =
     (case trial w a newTest st of
        (Accepted u, st') \<Rightarrow> (Accepted p, st')
      | (NotFound, st') \<Rightarrow> sweep w a rest st'
      | (Raised e, st') \<Rightarrow> (Raised e, st'))"

text \<open>\<open>while changed\<close>: the body is run again after every success. The loop runs as long
  as mutations are accepted, so it is defined with fuel; \<open>None\<close> is running out of it.
  \<open>p\<close> is what the pass keeps between sweeps (\<open>startingPos\<close>).\<close>

fun whileChanged ::
  "nat \<Rightarrow> ('p \<Rightarrow> rstate \<Rightarrow> 'p found \<times> rstate) \<Rightarrow> 'p \<Rightarrow> rstate \<Rightarrow> (exn option \<times> rstate) option" where
  "whileChanged 0 body p st = None"
| "whileChanged (Suc fuel) body p st =
     (case body p st of
        (Accepted p', st') \<Rightarrow> whileChanged fuel body p' st'
      | (NotFound, st') \<Rightarrow> Some (None, st')
      | (Raised e, st') \<Rightarrow> Some (Some e, st'))"

text \<open>A sweep from \<open>startingPos\<close> to the end and, with no success there, a second one over
  the offsets before \<open>startingPos\<close>.\<close>

definition sweepFrom ::
  "world \<Rightarrow> args \<Rightarrow> (bytes \<Rightarrow> nat list \<Rightarrow> (nat \<times> bytes) list) \<Rightarrow> nat \<Rightarrow> rstate \<Rightarrow> nat found \<times> rstate" where
  "sweepFrom w a mutations startingPos st =
     (case sweep w a (mutations (currentTest st) [startingPos..<length (currentTest st)]) st of
        (NotFound, st') \<Rightarrow> sweep w a (mutations (currentTest st') [0..<startingPos]) st'
      | other \<Rightarrow> other)"

subsection \<open>The mutations of each pass\<close>

text \<open>OneOf removal: \<open>currentTest[:c[0]] + currentTest[c[1]+1:]\<close> for each span \<open>c\<close> of the
  structure, skipping a result of the same length.\<close>

definition oneOfRemovals :: "bytes \<Rightarrow> (int \<times> int) list \<Rightarrow> ((int \<times> int) \<times> bytes) list" where
  "oneOfRemovals cur cuts =
     filter (\<lambda>(c, newTest). length newTest \<noteq> length cur)
       (map (\<lambda>c. (c, slice_to cur (fst c) @ slice_from cur (snd c + 1))) cuts)"

text \<open>Chunk removal: \<open>currentTest[:b] + currentTest[b+k:]\<close>.\<close>

definition chunkRemovals :: "nat \<Rightarrow> bytes \<Rightarrow> nat list \<Rightarrow> (nat \<times> bytes) list" where
  "chunkRemovals k cur bs = map (\<lambda>b. (b, take b cur @ drop (b + k) cur)) bs"

text \<open>Reduce and delete: for \<open>b\<close> in \<open>range(0, len(currentTest)-k)\<close> with a byte that is not
  zero, the byte at \<open>b\<close> less one and the \<open>k\<close> bytes after it deleted.\<close>

definition reduceAndDeletes :: "nat \<Rightarrow> bytes \<Rightarrow> (nat \<times> bytes) list" where
  "reduceAndDeletes k cur =
     map (\<lambda>b. (b, (let newTest = cur[b := cur ! b - 1]
                    in take (b + 1) newTest @ drop (b + k + 1) newTest)))
       (filter (\<lambda>b. cur ! b \<noteq> 0) [0..<length cur - k])"

text \<open>All byte ranges: \<open>currentTest[:b] + currentTest[v:]\<close> for \<open>v\<close> in
  \<open>range(b+2, min(len(currentTest), b+maxByteRange))\<close>, but for the lengths 4 and 8.\<close>

definition rangeRemovals :: "int \<Rightarrow> bytes \<Rightarrow> nat list \<Rightarrow> (nat \<times> bytes) list" where
  "rangeRemovals maxRange cur bs =
     concat (map (\<lambda>b.
       map (\<lambda>v. (b, take b cur @ drop v cur))
         (filter (\<lambda>v. v - b \<notin> {4, 8})
            [b + 2..<nat (min (int (length cur)) (int b + maxRange))])) bs)"

text \<open>The order of Python on bytearrays: \<open>bytesi > bytesj\<close>.\<close>

fun bytes_gt :: "bytes \<Rightarrow> bytes \<Rightarrow> bool" where
  "bytes_gt [] ys = False"
| "bytes_gt (x # xs) [] = True"
| "bytes_gt (x # xs) (y # ys) = (x > y \<or> (x = y \<and> bytes_gt xs ys))"

text \<open>OneOf swap: for spans \<open>i\<close> before \<open>j\<close> with \<open>cutj[0] > cuti[1]\<close>, the bytes of \<open>j\<close> not
  empty and those of \<open>i\<close> greater, the candidate with the two exchanged.\<close>

definition oneOfSwaps :: "bytes \<Rightarrow> (int \<times> int) list \<Rightarrow> (unit \<times> bytes) list" where
  "oneOfSwaps cur cuts =
     concat (map (\<lambda>i.
       (let cuti = cuts ! i; bytesi = slice cur (fst cuti) (snd cuti + 1)
        in concat (map (\<lambda>j.
             (let cutj = cuts ! j
              in if fst cutj > snd cuti then
                   (let bytesj = slice cur (fst cutj) (snd cutj + 1)
                    in if length bytesj > 0 \<and> bytes_gt bytesi bytesj then
                         [((), slice_to cur (fst cuti) @ bytesj
                               @ slice cur (snd cuti + 1) (fst cutj) @ bytesi
                               @ slice_from cur (snd cutj + 1))]
                       else [])
                 else []))
             [i + 1..<length cuts]))) [0..<length cuts - 1])"

text \<open>Byte reduction: the byte at \<open>b\<close> replaced by each smaller value, in ascending order.\<close>

definition byteReductions :: "bytes \<Rightarrow> nat list \<Rightarrow> (nat \<times> bytes) list" where
  "byteReductions cur bs =
     concat (map (\<lambda>b. map (\<lambda>v. (b, cur[b := of_nat v])) [0..<unat (cur ! b)]) bs)"

text \<open>Byte pattern search: for two offsets \<open>b1\<close>, \<open>b2\<close> with the same two bytes \<open>ba\<close>, the
  replacements \<open>banews\<close> of both occurrences.\<close>

definition banews :: "byte \<Rightarrow> byte \<Rightarrow> bytes list" where
  "banews ba0 ba1 =
     [[ba0], [ba1]]
     @ (if ba0 > 0 then map (\<lambda>v. [of_nat v, ba1]) [0..<unat ba0] @ [[ba0 - 1]] else [])
     @ (if ba1 > 0 then map (\<lambda>v. [ba0, of_nat v]) [0..<unat ba1] else [])"

definition patternReplacements :: "bytes \<Rightarrow> (unit \<times> bytes) list" where
  "patternReplacements cur =
     concat (map (\<lambda>b1.
       concat (map (\<lambda>b2.
         if (cur ! b1, cur ! (b1 + 1)) = (cur ! b2, cur ! (b2 + 1)) then
           map (\<lambda>banew.
                 ((), take b1 cur @ banew @ take (b2 - (b1 + 2)) (drop (b1 + 2) cur)
                      @ banew @ drop (b2 + 2) cur))
             (banews (cur ! b1) (cur ! (b1 + 1)))
         else [])
         [b1 + 2..<length cur - 4])) [0..<length cur - 4])"

subsection \<open>The passes\<close>

text \<open>Each pass is \<open>while changed\<close> around its sweeps.\<close>

definition oneOfRemovalPass :: "nat \<Rightarrow> world \<Rightarrow> args \<Rightarrow> rstate \<Rightarrow> (exn option \<times> rstate) option" where
  "oneOfRemovalPass fuel w a st =
     whileChanged fuel
       (\<lambda>p st. sweep w a (oneOfRemovals (currentTest st) (fst (s st))) st) (0, 0) st"

definition chunkRemovalPass :: "nat \<Rightarrow> world \<Rightarrow> args \<Rightarrow> nat \<Rightarrow> rstate \<Rightarrow> (exn option \<times> rstate) option" where
  "chunkRemovalPass fuel w a k st =
     whileChanged fuel (\<lambda>startingPos st. sweepFrom w a (chunkRemovals k) startingPos st) 0 st"

definition reduceAndDeletePass :: "nat \<Rightarrow> world \<Rightarrow> args \<Rightarrow> nat \<Rightarrow> rstate \<Rightarrow> (exn option \<times> rstate) option" where
  "reduceAndDeletePass fuel w a k st =
     whileChanged fuel (\<lambda>p st. sweep w a (reduceAndDeletes k (currentTest st)) st) 0 st"

definition allRangePass :: "nat \<Rightarrow> world \<Rightarrow> args \<Rightarrow> int \<Rightarrow> rstate \<Rightarrow> (exn option \<times> rstate) option" where
  "allRangePass fuel w a maxRange st =
     whileChanged fuel (\<lambda>startingPos st. sweepFrom w a (rangeRemovals maxRange) startingPos st) 0 st"

definition oneOfSwapPass :: "nat \<Rightarrow> world \<Rightarrow> args \<Rightarrow> rstate \<Rightarrow> (exn option \<times> rstate) option" where
  "oneOfSwapPass fuel w a st =
     whileChanged fuel (\<lambda>p st. sweep w a (oneOfSwaps (currentTest st) (fst (s st))) st) () st"

text \<open>Byte reduction restarts from \<open>b+1\<close> after a success at \<open>b\<close>. Its second loop reads
  \<open>currentTest[b]\<close> for \<open>b\<close> in \<open>range(0, startingPos)\<close>, which raises IndexError at the
  length of the candidate.\<close>

definition byteReduceSweep :: "world \<Rightarrow> args \<Rightarrow> nat \<Rightarrow> rstate \<Rightarrow> nat found \<times> rstate" where
  "byteReduceSweep w a startingPos st =
     (case sweep w a (byteReductions (currentTest st) [startingPos..<length (currentTest st)]) st of
        (Accepted b, st') \<Rightarrow> (Accepted (b + 1), st')
      | (Raised e, st') \<Rightarrow> (Raised e, st')
      | (NotFound, st') \<Rightarrow>
          (case sweep w a (byteReductions (currentTest st')
                             [0..<min startingPos (length (currentTest st'))]) st' of
             (Accepted b, st'') \<Rightarrow> (Accepted (b + 1), st'')
           | (Raised e, st'') \<Rightarrow> (Raised e, st'')
           | (NotFound, st'') \<Rightarrow>
               if startingPos > length (currentTest st'') then (Raised IndexError, st'')
               else (NotFound, st'')))"

definition byteReducePass :: "nat \<Rightarrow> world \<Rightarrow> args \<Rightarrow> rstate \<Rightarrow> (exn option \<times> rstate) option" where
  "byteReducePass fuel w a st = whileChanged fuel (byteReduceSweep w a) 0 st"

definition patternSearchPass :: "nat \<Rightarrow> world \<Rightarrow> args \<Rightarrow> rstate \<Rightarrow> (exn option \<times> rstate) option" where
  "patternSearchPass fuel w a st =
     whileChanged fuel (\<lambda>p st. sweep w a (patternReplacements (currentTest st)) st) () st"

subsection \<open>One iteration of the main loop\<close>

text \<open>The copies of the candidate each pass was last run to completion on. They start as
  the empty Python list, which no bytearray equals (\<open>None\<close> here).\<close>

record snapshots =
  lastOneOfRemovalTest :: "bytes option"
  lastChunkRemovalTest :: "nat \<Rightarrow> bytes option"
  lastReduceAndDeleteTest :: "nat \<Rightarrow> bytes option"
  lastAllRangeTest :: "bytes option"
  lastOneOfSwapTest :: "bytes option"
  lastByteReduceTest :: "bytes option"
  lastPatternSearchTest :: "bytes option"

definition no_snapshots :: snapshots where
  "no_snapshots =
     \<lparr>lastOneOfRemovalTest = None, lastChunkRemovalTest = (\<lambda>k. None),
      lastReduceAndDeleteTest = (\<lambda>k. None), lastAllRangeTest = None,
      lastOneOfSwapTest = None, lastByteReduceTest = None, lastPatternSearchTest = None\<rparr>"

type_synonym step = "snapshots \<times> rstate \<Rightarrow> (exn option \<times> snapshots \<times> rstate) option"

text \<open>\<open>if currentTest != last: ...pass...; last = bytearray(currentTest)\<close>.\<close>

definition guarded ::
  "(snapshots \<Rightarrow> bytes option) \<Rightarrow> (bytes option \<Rightarrow> snapshots \<Rightarrow> snapshots)
     \<Rightarrow> (rstate \<Rightarrow> (exn option \<times> rstate) option) \<Rightarrow> step" where
  "guarded get_last set_last pass x =
     (case x of (sn, st) \<Rightarrow>
        if Some (currentTest st) \<noteq> get_last sn then
          (case pass st of
             None \<Rightarrow> None
           | Some (Some e, st') \<Rightarrow> Some (Some e, sn, st')
           | Some (None, st') \<Rightarrow> Some (None, set_last (Some (currentTest st')) sn, st'))
        else Some (None, sn, st))"

text \<open>The passes of an iteration run in sequence; an exception ends the sequence.\<close>

fun run_steps :: "step list \<Rightarrow> step" where
  "run_steps [] x = Some (None, x)"
| "run_steps (f # fs) x =
     (case f x of
        None \<Rightarrow> None
      | Some (Some e, y) \<Rightarrow> Some (Some e, y)
      | Some (None, y) \<Rightarrow> run_steps fs y)"

definition skip_step :: step where
  "skip_step x = Some (None, x)"

definition iteration :: "nat \<Rightarrow> world \<Rightarrow> args \<Rightarrow> int \<Rightarrow> bytes \<Rightarrow> step" where
  "iteration fuel w a maxRange oldTest =
     run_steps
       ([guarded lastOneOfRemovalTest (\<lambda>v sn. sn\<lparr>lastOneOfRemovalTest := v\<rparr>)
           (oneOfRemovalPass fuel w a)]
        @ map (\<lambda>k. guarded (\<lambda>sn. lastChunkRemovalTest sn k)
                     (\<lambda>v sn. sn\<lparr>lastChunkRemovalTest := (lastChunkRemovalTest sn)(k := v)\<rparr>)
                     (chunkRemovalPass fuel w a k)) [1, 4, 8]
        @ map (\<lambda>k. guarded (\<lambda>sn. lastReduceAndDeleteTest sn k)
                     (\<lambda>v sn. sn\<lparr>lastReduceAndDeleteTest := (lastReduceAndDeleteTest sn)(k := v)\<rparr>)
                     (reduceAndDeletePass fuel w a k)) [1, 4, 8]
        @ [if fast a then skip_step
           else guarded lastAllRangeTest (\<lambda>v sn. sn\<lparr>lastAllRangeTest := v\<rparr>)
                  (allRangePass fuel w a maxRange),
           guarded lastOneOfSwapTest (\<lambda>v sn. sn\<lparr>lastOneOfSwapTest := v\<rparr>)
             (oneOfSwapPass fuel w a),
           guarded lastByteReduceTest (\<lambda>v sn. sn\<lparr>lastByteReduceTest := v\<rparr>)
             (byteReducePass fuel w a),
           (\<lambda>x. if (slow a \<or> slowest a) \<and> oldTest = currentTest (snd x) then
                   guarded lastPatternSearchTest (\<lambda>v sn. sn\<lparr>lastPatternSearchTest := v\<rparr>)
                     (patternSearchPass fuel w a) x
                 else skip_step x)])"

subsection \<open>\<open>main\<close>\<close>

text \<open>\<open>while oldTest != currentTest\<close>. \<open>oldTest\<close> starts as the empty Python list (\<open>None\<close>), so
  the first iteration always runs. Each iteration first computes the percentage of
  reduction, dividing by \<open>initialSize\<close>: with an empty candidate this raises
  ZeroDivisionError (the later divisions by \<open>initialSize\<close> come after this one, so they
  cannot raise).\<close>

fun mainLoop ::
  "nat \<Rightarrow> world \<Rightarrow> args \<Rightarrow> int \<Rightarrow> nat \<Rightarrow> bytes option \<Rightarrow> snapshots \<times> rstate
     \<Rightarrow> (exn option \<times> rstate) option" where
  "mainLoop 0 w a maxRange initialSize oldTest x = None"
| "mainLoop (Suc fuel) w a maxRange initialSize oldTest x =
     (if oldTest \<noteq> Some (currentTest (snd x)) then
        (if initialSize = 0 then Some (Some ZeroDivisionError, snd x)
         else (case iteration fuel w a maxRange (currentTest (snd x)) x of
                 None \<Rightarrow> None
               | Some (Some e, y) \<Rightarrow> Some (Some e, snd y)
               | Some (None, y) \<Rightarrow>
                   mainLoop fuel w a maxRange initialSize (Some (currentTest (snd x))) y))
      else Some (None, snd x))"

datatype outcome = Return int | Uncaught exn

definition init_state :: rstate where
  "init_state =
     \<lparr>currentTest = [], s = ([], 0), r = [], candidateRuns = 0, out = None,
      diagnostics = [], history = []\<rparr>"

text \<open>\<open>main\<close> up to the main loop. It ends the run (\<open>Inl\<close>) with the exit status 1 when the
  seed does not satisfy the criteria, or with an exception, none of which is caught
  here; otherwise it gives the value of \<open>maxByteRange\<close> and the state the loop starts in.\<close>

definition startup :: "world \<Rightarrow> args \<Rightarrow> (outcome \<times> rstate) + (int \<times> rstate)" where
  "startup w a =
     (case runCandidate w a (input_test w) init_state of
        (Inl e, st) \<Rightarrow> Inl (Uncaught e, st)
      | (Inr initial, st) \<Rightarrow>
          if \<not> search a \<and> \<not> checks (criteria a) initial then
            Inl (Return 1,
                 st\<lparr>diagnostics :=
                      diagnostics st @ [''STARTING TEST DOES NOT SATISFY REDUCTION CRITERIA!'']\<rparr>)
          else
            (let st1 = st\<lparr>currentTest := input_test w, history := history st @ [ReadInput]\<rparr>;
                 original = currentTest st1;
                 maxRange = (if slowest a then int (length (currentTest st1)) else maxByteRange a)
             in case rangeConversions initial of
                  Inl e \<Rightarrow> Inl (Uncaught e, st1)
                | Inr conversions \<Rightarrow>
                   (case fixRangeConversions (noStructure a) (currentTest st1) conversions of
                      Inl e \<Rightarrow> Inl (Uncaught e, st1)
                    | Inr fixed \<Rightarrow>
                       (let st2 = st1\<lparr>currentTest := fixed\<rparr>
                        in case writeAndRunCandidate w a (currentTest st2) st2 of
                             (Inl e, st3) \<Rightarrow> Inl (Uncaught e, st3)
                           | (Inr result, st3) \<Rightarrow>
                              (let st4 = st3\<lparr>r := result\<rparr>
                               in if \<not> checks (criteria a) result then
                                    Inl (Uncaught AssertionError, st4)
                                  else
                                    (case structure (noStructure a) (currentTest st4) initial of
                                       Inl e \<Rightarrow> Inl (Uncaught e, st4)
                                     | Inr sv \<Rightarrow>
                                        (let st5 = st4\<lparr>s := sv\<rparr>;
                                             st6 = (if snd sv + 1 < int (length (currentTest st5))
                                                    then st5\<lparr>currentTest :=
                                                           slice_to (currentTest st5) (snd sv + 1)\<rparr>
                                                    else st5);
                                             st7 = (if currentTest st6 \<noteq> original
                                                    then st6\<lparr>out := Some (currentTest st6),
                                                             history := history st6
                                                               @ [Wrote (currentTest st6)]\<rparr>
                                                    else st6)
                                         in Inr (maxRange, st7))))))))"

text \<open>The main loop inside \<open>try\<close>: a TimeoutException is caught and the run goes on to its
  end (\<open>Inr\<close>) with the state it was raised in; any other exception ends the run.\<close>

definition reduce :: "nat \<Rightarrow> world \<Rightarrow> args \<Rightarrow> ((outcome \<times> rstate) + rstate) option" where
  "reduce fuel w a =
     (case startup w a of
        Inl ended \<Rightarrow> Some (Inl ended)
      | Inr (maxRange, st) \<Rightarrow>
          (case mainLoop fuel w a maxRange (length (currentTest st)) None (no_snapshots, st) of
             None \<Rightarrow> None
           | Some (None, st') \<Rightarrow> Some (Inr st')
           | Some (Some e, st') \<Rightarrow>
               if e = TimeoutException then Some (Inr st') else Some (Inl (Uncaught e, st'))))"

text \<open>The end of \<open>main\<close>: the padding with zeroes up to one byte past the last byte read,
  unless \<open>--noPad\<close>, and the last write of the output file.\<close>

definition finalize :: "args \<Rightarrow> rstate \<Rightarrow> rstate" where
  "finalize a st =
     (let padded =
            (if \<not> noPad a \<and> snd (s st) + 1 > int (length (currentTest st))
             then currentTest st
                    @ replicate (nat (snd (s st) + 1 - int (length (currentTest st)))) 0
             else currentTest st)
      in st\<lparr>currentTest := padded, out := Some padded, history := history st @ [Wrote padded]\<rparr>)"

definition main :: "nat \<Rightarrow> world \<Rightarrow> args \<Rightarrow> (outcome \<times> rstate) option" where
  "main fuel w a =
     (case reduce fuel w a of
        None \<Rightarrow> None
      | Some (Inl ended) \<Rightarrow> Some ended
      | Some (Inr st) \<Rightarrow> Some (Return 0, finalize a st))"

subsection \<open>The normalization as the specification words it\<close>

text \<open>A conversion is within the bounds of the candidate when its end offset is below the
  length: the test the loop of \<open>fixRangeConversions\<close> makes before anything else.\<close>

definition in_bounds :: "bytes \<Rightarrow> conversion \<Rightarrow> bool" where
  "in_bounds test c = (snd (fst c) < int (length test))"

text \<open>What the specification asks for one conversion: every byte at the offsets
  \<open>start .. end - 1\<close> becomes zero, the byte at \<open>end\<close> becomes the converted value, every
  other byte stays; and this only when the end offset is within bounds and the value is
  strictly smaller than the byte at the end offset.\<close>

definition normalize_group :: "bytes \<Rightarrow> int \<Rightarrow> int \<Rightarrow> int \<Rightarrow> bytes" where
  "normalize_group test start end v =
     map (\<lambda>i. if start \<le> int i \<and> int i < end then 0
              else if int i = end then word_of_int v else test ! i) [0..<length test]"

text \<open>The specification's step for one conversion, with its two conditions.\<close>

definition spec_step :: "bytes \<Rightarrow> conversion \<Rightarrow> bytes" where
  "spec_step test c =
     (case c of ((pos0, end), v) \<Rightarrow>
        (case pos0 of None \<Rightarrow> test
         | Some start \<Rightarrow>
             if 0 \<le> end \<and> end < int (length test) \<and> v < uint (test ! nat end)
             then normalize_group test start end v else test))"

text \<open>A conversion made of byte offsets and a byte value: a start offset was recorded,
  and offsets and value are not negative.\<close>

definition wf_conversion :: "conversion \<Rightarrow> bool" where
  "wf_conversion c =
     (case c of ((pos0, end), v) \<Rightarrow>
        (case pos0 of None \<Rightarrow> False | Some start \<Rightarrow> 0 \<le> start) \<and> 0 \<le> end \<and> 0 \<le> v)"

text \<open>Python's \<open>test[i]\<close> as a value.\<close>

definition byte_at :: "bytes \<Rightarrow> int \<Rightarrow> byte option" where
  "byte_at test i = map_option (\<lambda>j. test ! j) (py_index (length test) i)"

text \<open>The recorded conversions are consistent with the candidate: for every conversion
  within bounds, the byte at the end offset is the converted value and the bytes before
  it in the group are zero.\<close>

definition consistent :: "bytes \<Rightarrow> conversion list \<Rightarrow> bool" where
  "consistent test cs =
     (\<forall>c\<in>set cs. case c of ((pos0, end), v) \<Rightarrow>
        end < int (length test) \<longrightarrow>
          map_option uint (byte_at test end) = Some v \<and>
          (case pos0 of None \<Rightarrow> True
           | Some start \<Rightarrow> \<forall>b\<in>set [start..end - 1]. byte_at test b = Some 0))"

subsection \<open>Well-formed traces\<close>

text \<open>The three kinds of line the loop of \<open>structure\<close> tells apart, in the order of its
  \<open>if\<close>/\<open>elif\<close> chain.\<close>

definition starts_oneof :: "string \<Rightarrow> bool" where
  "starts_oneof line = py_in ''STARTING OneOf CALL'' line"

definition reads_byte :: "string \<Rightarrow> bool" where
  "reads_byte line = (\<not> starts_oneof line \<and> py_in ''Reading byte at'' line)"

definition finishes_oneof :: "string \<Rightarrow> bool" where
  "finishes_oneof line =
     (\<not> starts_oneof line \<and> \<not> reads_byte line \<and> py_in ''FINISHED OneOf CALL'' line)"

text \<open>\<open>int(line.split()[-1])\<close> returns.\<close>

definition parses :: "string \<Rightarrow> bool" where
  "parses line = (case last_int line of Inl e \<Rightarrow> False | Inr n \<Rightarrow> True)"

text \<open>The markers of a trace are well formed for \<open>structure\<close>, for a loop that starts with
  \<open>depth\<close> pending spans and with \<open>lastRead\<close> bound or not: every byte-read line ends in a
  number; \<open>lastRead\<close> is bound at the end; no prefix of the trace has more end markers than
  begin markers and pending spans; every end marker comes after a byte read.\<close>

definition wf_structure_from :: "nat \<Rightarrow> bool \<Rightarrow> trace \<Rightarrow> bool" where
  "wf_structure_from depth bound tr =
     ((\<forall>l\<in>set tr. reads_byte l \<longrightarrow> parses l) \<and>
      (bound \<or> (\<exists>l\<in>set tr. reads_byte l)) \<and>
      (\<forall>k\<le>length tr. length (filter finishes_oneof (take k tr))
                        \<le> depth + length (filter starts_oneof (take k tr))) \<and>
      (\<forall>k<length tr. finishes_oneof (tr ! k) \<longrightarrow> bound \<or> (\<exists>j<k. reads_byte (tr ! j))))"

text \<open>The markers \<open>rangeConversions\<close> looks for; one line may carry several.\<close>

definition reads_at :: "string \<Rightarrow> bool" where
  "reads_at line = py_in ''Reading byte at'' line"

definition finishes_multi :: "string \<Rightarrow> bool" where
  "finishes_multi line = py_in ''FINISHED MULTI-BYTE READ'' line"

definition converts :: "string \<Rightarrow> bool" where
  "converts line = py_in ''Converting out-of-range value'' line"

text \<open>The markers of a trace are well formed for \<open>rangeConversions\<close>, for a loop that starts
  with \<open>lastRead\<close> and \<open>currentMulti\<close> bound or not: every byte-read line and every conversion
  line ends in a number; every end of a multi-byte read comes with or after a byte read;
  every conversion comes with or after the end of a multi-byte read.\<close>

definition wf_conversions_from :: "bool \<Rightarrow> bool \<Rightarrow> trace \<Rightarrow> bool" where
  "wf_conversions_from readBound multiBound tr =
     ((\<forall>l\<in>set tr. reads_at l \<or> converts l \<longrightarrow> parses l) \<and>
      (\<forall>k<length tr. finishes_multi (tr ! k) \<longrightarrow> readBound \<or> (\<exists>j\<le>k. reads_at (tr ! j))) \<and>
      (\<forall>k<length tr. converts (tr ! k) \<longrightarrow> multiBound \<or> (\<exists>j\<le>k. finishes_multi (tr ! j))))"

text \<open>The same for one line.\<close>

definition line_ok :: "bool \<Rightarrow> bool \<Rightarrow> string \<Rightarrow> bool" where
  "line_ok readBound multiBound l =
     ((reads_at l \<or> converts l \<longrightarrow> parses l) \<and>
      (finishes_multi l \<longrightarrow> readBound \<or> reads_at l) \<and>
      (converts l \<longrightarrow> multiBound \<or> finishes_multi l))"

subsection \<open>Concrete runs\<close>

text \<open>The defaults of the argument parser.\<close>

definition default_args :: args where
  "default_args =
     \<lparr>criteria = None, search = False, timeout = 1200, maxByteRange = 16, fast = False,
      slow = False, slowest = False, noStructure = False, noPad = False\<rparr>"

text \<open>A test binary that reads the first byte of its input and fails, whatever the input;
  the \<open>n\<close>-th run starts \<open>n\<close> milliseconds after the reducer.\<close>

definition world_reads_first_byte :: "bytes \<Rightarrow> world" where
  "world_reads_first_byte seed =
     \<lparr>input_test = seed,
      binary = (\<lambda>n b. [''Reading byte at 0'', ''ERROR: Failed: x'']),
      clock = (\<lambda>n. real n / 1000)\<rparr>"

text \<open>A test binary whose OneOf call reads no byte: the span recorded for it starts at
  \<open>-1\<close>. The \<open>n\<close>-th run starts \<open>400 n\<close> seconds after the reducer, so the fourth run is
  past the default timeout.\<close>

definition world_empty_oneof :: world where
  "world_empty_oneof =
     \<lparr>input_test = [1, 2, 3, 4, 5, 6, 7, 8, 9, 10],
      binary = (\<lambda>n b. [''Reading byte at 5'', ''STARTING OneOf CALL'', ''FINISHED OneOf CALL'',
                        ''Reading byte at 9'', ''ERROR: Failed: x'']),
      clock = (\<lambda>n. 400 * real n)\<rparr>"

text \<open>A test binary that, on ten bytes, takes bytes 4 to 7 as one OneOf alternative, and
  on any other input reads a two-byte field whose value it converts to 3.\<close>

definition world_span_4_7 :: world where
  "world_span_4_7 =
     \<lparr>input_test = [9, 9, 9, 9, 1, 2, 3, 4, 9, 9],
      binary = (\<lambda>n b.
        if length b = 10 then
          [''Reading byte at 0'', ''STARTING OneOf CALL'', ''Reading byte at 4'',
           ''Reading byte at 7'', ''FINISHED OneOf CALL'', ''Reading byte at 9'',
           ''ERROR: Failed: x'']
        else
          [''STARTING MULTI-BYTE READ'', ''Reading byte at 0'', ''Reading byte at 1'',
           ''FINISHED MULTI-BYTE READ'', ''Converting out-of-range value 3'',
           ''Reading byte at 5'', ''ERROR: Failed: x'']),
      clock = (\<lambda>n. 400 * real n)\<rparr>"

text \<open>The state of that run when the main loop starts.\<close>

definition state_span_4_7 :: rstate where
  "state_span_4_7 =
     \<lparr>currentTest = [9, 9, 9, 9, 1, 2, 3, 4, 9, 9], s = ([(4, 7)], 9), r = [],
      candidateRuns = 2, out = None, diagnostics = [], history = []\<rparr>"

subsection \<open>Invariants of a run\<close>

text \<open>A result of a loop that an invariant has to hold for: every normal result, and the
  exceptions \<open>G\<close> selects.\<close>

definition good :: "(exn \<Rightarrow> bool) \<Rightarrow> 'p found \<Rightarrow> bool" where
  "good G f = (case f of Raised e \<Rightarrow> G e | _ \<Rightarrow> True)"

definition good_exn :: "(exn \<Rightarrow> bool) \<Rightarrow> exn option \<Rightarrow> bool" where
  "good_exn G eo = (case eo of Some e \<Rightarrow> G e | None \<Rightarrow> True)"

text \<open>An invariant \<open>P\<close> of the state is kept by a step of an iteration.\<close>

definition step_preserves :: "(rstate \<Rightarrow> bool) \<Rightarrow> (exn \<Rightarrow> bool) \<Rightarrow> step \<Rightarrow> bool" where
  "step_preserves P G f =
     (\<forall>x eo y. P (snd x) \<longrightarrow> f x = Some (eo, y) \<longrightarrow> good_exn G eo \<longrightarrow> P (snd y))"

text \<open>With \<open>--noStructure\<close> the structure is always: no span, and the length of the
  candidate as the offset of the last byte read.\<close>

definition structure_off :: "rstate \<Rightarrow> bool" where
  "structure_off st = (s st = ([], int (length (currentTest st))))"

text \<open>The one exception the main loop catches.\<close>

definition only_timeout :: "exn \<Rightarrow> bool" where
  "only_timeout e = (e = TimeoutException)"

subsection \<open>Writes and accepted candidates\<close>

text \<open>The candidates of a history that were run with a trace that \<open>checks\<close> accepts.\<close>

fun accepted_runs :: "string option \<Rightarrow> event list \<Rightarrow> (bytes \<times> trace) list" where
  "accepted_runs c [] = []"
| "accepted_runs c (Ran b tr # h) =
     (if checks c tr then (b, tr) # accepted_runs c h else accepted_runs c h)"
| "accepted_runs c (Wrote w # h) = accepted_runs c h"
| "accepted_runs c (ReadInput # h) = accepted_runs c h"

text \<open>C1 as it is stated: every write is of bytes that were run before, with a trace that
  \<open>checks\<close> accepted.\<close>

definition writes_accepted :: "args \<Rightarrow> event list \<Rightarrow> bool" where
  "writes_accepted a h =
     (\<forall>i<length h. \<forall>w. h ! i = Wrote w \<longrightarrow>
        w \<in> fst ` set (accepted_runs (criteria a) (take i h)))"

text \<open>\<open>t\<close> is the candidate of the accepted run \<open>x\<close> after \<open>fixRangeConversions\<close> with the
  conversions of its trace.\<close>

definition normalized :: "args \<Rightarrow> bytes \<times> trace \<Rightarrow> bytes \<Rightarrow> bool" where
  "normalized a x t =
     (case rangeConversions (snd x) of
        Inl e \<Rightarrow> False
      | Inr cs \<Rightarrow> fixRangeConversions (noStructure a) (fst x) cs = Inr t)"

text \<open>Every exception.\<close>

definition any_exn :: "exn \<Rightarrow> bool" where
  "any_exn e = True"

text \<open>What \<open>main\<close> does to the candidate after the first two runs: it cuts the candidate
  to \<open>lastRead + 1\<close> bytes when it is longer than that.\<close>

definition cut_to_reach :: "bytes \<Rightarrow> int \<Rightarrow> bytes" where
  "cut_to_reach test lastRead =
     (if lastRead + 1 < int (length test) then slice_to test (lastRead + 1) else test)"

text \<open>What \<open>main\<close> does to the candidate before the last write: unless \<open>--noPad\<close>, a
  candidate of fewer than \<open>lastRead + 1\<close> bytes gets the zero bytes it lacks.\<close>

definition pad_to_reach :: "bool \<Rightarrow> bytes \<Rightarrow> int \<Rightarrow> bytes" where
  "pad_to_reach no_pad test lastRead =
     (if \<not> no_pad \<and> lastRead + 1 > int (length test)
      then test @ replicate (nat (lastRead + 1 - int (length test))) 0
      else test)"

text \<open>The history \<open>h\<close> starts as every run that reaches the main loop does: the run of the
  seed, the reading of the seed, and the run of \<open>fixed\<close>, the seed normalized with the
  conversions of its trace, which \<open>checks\<close> accepts; \<open>sv\<close> is the structure computed
  from the trace of the seed, and \<open>rest\<close> is what follows in the history.\<close>

definition started ::
  "args \<Rightarrow> bytes \<Rightarrow> event list \<Rightarrow> bytes \<Rightarrow> (int \<times> int) list \<times> int \<Rightarrow> event list \<Rightarrow> bool" where
  "started a seed h fixed sv rest =
     (\<exists>t1 t2. h = Ran seed t1 # ReadInput # Ran fixed t2 # rest \<and>
        normalized a (seed, t1) fixed \<and> checks (criteria a) t2 \<and>
        structure (noStructure a) fixed t1 = Inr sv)"

text \<open>The write of \<open>w\<close> at position \<open>i\<close> is one of \<open>updateCurrent\<close>: the event just before
  it is the run of a candidate with a trace that \<open>checks\<close> accepts, and \<open>w\<close> is that
  candidate normalized with the conversions of that trace.\<close>

definition update_write :: "args \<Rightarrow> event list \<Rightarrow> nat \<Rightarrow> bytes \<Rightarrow> bool" where
  "update_write a rest i w =
     (\<exists>nt tr. rest ! (i - 1) = Ran nt tr \<and> checks (criteria a) tr \<and> normalized a (nt, tr) w)"

text \<open>The writes of a reduction, exactly: when the normalized seed cut to the last byte
  read differs from the seed, it is written first; every other write is one of
  \<open>updateCurrent\<close>.\<close>

definition writes_pinned ::
  "args \<Rightarrow> bytes \<Rightarrow> bytes \<Rightarrow> (int \<times> int) list \<times> int \<Rightarrow> event list \<Rightarrow> bool" where
  "writes_pinned a seed fixed sv rest =
     ((cut_to_reach fixed (snd sv) \<noteq> seed \<longrightarrow>
         (\<exists>rest'. rest = Wrote (cut_to_reach fixed (snd sv)) # rest')) \<and>
      (\<forall>i<length rest. \<forall>w. rest ! i = Wrote w \<longrightarrow>
         (i = 0 \<and> w = cut_to_reach fixed (snd sv) \<and> w \<noteq> seed) \<or>
         (0 < i \<and> update_write a rest i w)))"

text \<open>The best-known candidate and its structure, read off a history: they start as \<open>x\<close>
  and are replaced at every run that is followed by a write, by the bytes written and
  the structure of the trace of that run.\<close>

fun best_known ::
  "bool \<Rightarrow> bytes \<times> (int \<times> int) list \<times> int \<Rightarrow> event list \<Rightarrow> bytes \<times> (int \<times> int) list \<times> int" where
  "best_known ns x [] = x"
| "best_known ns x (Ran nt tr # Wrote w # h) =
     best_known ns (case structure ns w tr of Inr sv \<Rightarrow> (w, sv) | Inl e \<Rightarrow> x) h"
| "best_known ns x (e # h) = best_known ns x h"

text \<open>The writes of a run that ends before the last write of \<open>main\<close>: none, or those of a
  reduction.\<close>

definition run_writes_ok :: "args \<Rightarrow> bytes \<Rightarrow> event list \<Rightarrow> bool" where
  "run_writes_ok a seed h =
     ((\<forall>w. Wrote w \<notin> set h) \<or>
      (\<exists>fixed sv rest. started a seed h fixed sv rest \<and> writes_pinned a seed fixed sv rest))"

text \<open>The two invariants of the main loop: the writes so far are those of a reduction;
  and, as long as no exception other than the timeout was raised, the best-known candidate
  and its structure are those read off the history, from the normalized seed cut to the
  last byte read.\<close>

definition writes_ok :: "args \<Rightarrow> bytes \<Rightarrow> rstate \<Rightarrow> bool" where
  "writes_ok a seed st =
     (\<exists>fixed sv rest. started a seed (history st) fixed sv rest \<and>
        writes_pinned a seed fixed sv rest)"

definition reduction_pinned :: "args \<Rightarrow> bytes \<Rightarrow> rstate \<Rightarrow> bool" where
  "reduction_pinned a seed st =
     (\<exists>fixed sv rest. started a seed (history st) fixed sv rest \<and>
        writes_pinned a seed fixed sv rest \<and>
        (currentTest st, s st) =
           best_known (noStructure a) (cut_to_reach fixed (snd sv), sv) rest)"

text \<open>A test binary that reads the first byte of an input of three bytes and fails, and
  on any other input fails without reading a byte; the \<open>n\<close>-th run starts \<open>n\<close>
  milliseconds after the reducer.\<close>

definition world_reads_three_bytes_only :: world where
  "world_reads_three_bytes_only =
     \<lparr>input_test = [5, 6, 7],
      binary = (\<lambda>n b. if length b = 3 then [''Reading byte at 0'', ''ERROR: Failed: x'']
                       else [''ERROR: Failed: x'']),
      clock = (\<lambda>n. real n / 1000)\<rparr>"

section \<open>Properties\<close>

subsection \<open>Conversion normalization\<close>

lemma zero_range_length: "zero_range test bs = Inr t \<Longrightarrow> length t = length test"
  by (induction bs arbitrary: test) (auto split: option.splits)

lemma zero_range_le: "zero_range test bs = Inr t \<Longrightarrow> i < length test \<Longrightarrow> t ! i \<le> test ! i"
proof (induction bs arbitrary: test)
  case Nil then show ?case by simp
next
  case (Cons b bs)
  then obtain j where j: "py_index (length test) b = Some j" and z: "zero_range (test[j := 0]) bs = Inr t"
    by (auto split: option.splits)
  from Cons.IH[OF z] Cons.prems(2) have "t ! i \<le> (test[j := 0]) ! i" by simp
  also have "\<dots> \<le> test ! i" using Cons.prems(2) by (cases "i = j") auto
  finally show ?case .
qed

lemma zero_range_spec:
  "\<forall>b\<in>set bs. 0 \<le> b \<and> b < int (length test) \<Longrightarrow>
   zero_range test bs = Inr (map (\<lambda>i. if int i \<in> set bs then 0 else test ! i) [0..<length test])"
proof (induction bs arbitrary: test)
  case Nil then show ?case by (simp add: map_nth)
next
  case (Cons b bs)
  have j: "py_index (length test) b = Some (nat b)" using Cons.prems by (simp add: py_index_def)
  have "zero_range (test[nat b := 0]) bs = Inr (map (\<lambda>i. if int i \<in> set bs then 0 else test[nat b := 0] ! i) [0..<length (test[nat b := 0])])"
    using Cons.prems by (intro Cons.IH) simp
  then show ?case using j Cons.prems by (auto simp: nth_list_update intro!: nth_equalityI)
qed

lemma py_index_lt: "py_index n i = Some j \<Longrightarrow> j < n"
  by (auto simp: py_index_def split: if_splits)

lemma uint_byte_of_int: "0 \<le> v \<Longrightarrow> v < 255 \<Longrightarrow> uint (word_of_int v :: byte) = v"
  by (simp add: uint_word_of_int)

lemma loop_mono:
  "fixRangeConversions_loop test cs = Inr t \<Longrightarrow>
   length t = length test \<and> (\<forall>i<length test. t ! i \<le> test ! i)"
proof (induction test cs rule: fixRangeConversions_loop.induct)
  case (1 test)
  then show ?case by simp
next
  case (2 test pos0 pos1 v conversions)
  show ?case
  proof (cases "pos1 \<ge> int (length test)")
    case True with "2.prems" show ?thesis by simp
  next
    case nb: False
    show ?thesis
    proof (cases "v < 255")
      case False
      with nb "2.prems" "2.IH"(3) show ?thesis by simp
    next
      case v: True
      from nb v "2.prems" obtain e where e: "py_index (length test) pos1 = Some e"
        by (auto split: option.splits)
      have el: "e < length test" using e by (rule py_index_lt)
      show ?thesis
      proof (cases "v < uint (test ! e)")
        case False
        with nb v e "2.prems" "2.IH"(2) show ?thesis by simp
      next
        case ap: True
        from nb v e ap "2.prems" obtain a zeroed where a: "pos0 = Some a"
          and z: "zero_range test [a..pos1 - 1] = Inr zeroed" and v0: "\<not> v < 0"
          and r: "fixRangeConversions_loop (zeroed[e := word_of_int v]) conversions = Inr t"
          by (auto split: option.splits sum.splits if_splits)
        have zl: "length zeroed = length test" using z by (rule zero_range_length)
        from "2.IH"(1)[OF nb v e ap a z v0 r]
        have l: "length t = length test" and m: "\<forall>i<length test. t ! i \<le> (zeroed[e := word_of_int v]) ! i"
          by (simp_all add: zl)
        have "t ! i \<le> test ! i" if i: "i < length test" for i
        proof (cases "i = e")
          case True
          have "uint (t ! i) \<le> uint (word_of_int v :: byte)" using m i True zl by (auto simp: word_le_def)
          also have "\<dots> = v" using v v0 by (simp add: uint_byte_of_int)
          finally show ?thesis using ap True by (simp add: word_le_def)
        next
          case False
          then have "t ! i \<le> zeroed ! i" using m i by auto
          also have "\<dots> \<le> test ! i" using z i by (rule zero_range_le)
          finally show ?thesis .
        qed
        with l show ?thesis by simp
      qed
    qed
  qed
qed

lemma loop_idem:
  "fixRangeConversions_loop test cs = Inr t \<Longrightarrow> fixRangeConversions_loop t cs = Inr t"
proof (induction test cs rule: fixRangeConversions_loop.induct)
  case (1 test)
  then show ?case by simp
next
  case (2 test pos0 pos1 v conversions)
  note mono = loop_mono[OF "2.prems"]
  show ?case
  proof (cases "pos1 \<ge> int (length test)")
    case True with "2.prems" show ?thesis by auto
  next
    case nb: False
    show ?thesis
    proof (cases "v < 255")
      case False
      with nb "2.prems" "2.IH"(3) mono show ?thesis by simp
    next
      case v: True
      from nb v "2.prems" obtain e where e: "py_index (length test) pos1 = Some e"
        by (auto split: option.splits)
      have el: "e < length test" using e by (rule py_index_lt)
      show ?thesis
      proof (cases "v < uint (test ! e)")
        case False
        then have "\<not> v < uint (t ! e)" using mono el by (auto simp: word_le_def)
        with False nb v e "2.prems" "2.IH"(2) mono show ?thesis by simp
      next
        case ap: True
        from nb v e ap "2.prems" obtain a zeroed where a: "pos0 = Some a"
          and z: "zero_range test [a..pos1 - 1] = Inr zeroed" and v0: "\<not> v < 0"
          and r: "fixRangeConversions_loop (zeroed[e := word_of_int v]) conversions = Inr t"
          by (auto split: option.splits sum.splits if_splits)
        have zl: "length zeroed = length test" using z by (rule zero_range_length)
        from loop_mono[OF r] el zl have "t ! e \<le> word_of_int v" by auto
        then have "uint (t ! e) \<le> v" using v v0 by (simp add: word_le_def uint_byte_of_int)
        then have "\<not> v < uint (t ! e)" by simp
        with "2.IH"(1)[OF nb v e ap a z v0 r] nb v e mono show ?thesis by simp
      qed
    qed
  qed
qed

lemma length_spec_step: "length (spec_step test c) = length test"
  by (auto simp: spec_step_def normalize_group_def split: prod.splits option.splits)

lemma in_bounds_spec_step: "in_bounds (spec_step test c) = in_bounds test"
  by (simp add: in_bounds_def fun_eq_iff length_spec_step)

lemma loop_step_wf:
  assumes "wf_conversion c" "in_bounds test c"
  shows "fixRangeConversions_loop test (c # cs) = fixRangeConversions_loop (spec_step test c) cs"
proof -
  obtain pos0 e v where c: "c = ((pos0, e), v)" by (metis prod.exhaust)
  from assms c obtain a where a: "pos0 = Some a" "0 \<le> a" and e: "0 \<le> e" "e < int (length test)" and v: "0 \<le> v"
    by (auto simp: wf_conversion_def in_bounds_def split: option.splits)
  have idx: "py_index (length test) e = Some (nat e)" using e by (simp add: py_index_def)
  show ?thesis
  proof (cases "v < uint (test ! nat e)")
    case False
    then show ?thesis using c a e idx by (simp add: spec_step_def)
  next
    case True
    have "uint (test ! nat e) \<le> 255" using uint_bounded[of "test ! nat e"] by simp
    with True have v255: "v < 255" by simp
    have z: "zero_range test [a..e - 1] =
        Inr (map (\<lambda>i. if int i \<in> set [a..e - 1] then 0 else test ! i) [0..<length test])"
      using a e by (intro zero_range_spec) auto
    have "(map (\<lambda>i. if int i \<in> set [a..e - 1] then 0 else test ! i) [0..<length test])[nat e := word_of_int v]
          = normalize_group test a e v" (is "?l = ?r")
    proof (rule nth_equalityI)
      show "length ?l = length ?r" by (simp add: normalize_group_def)
    next
      fix i assume "i < length ?l"
      then have i: "i < length test" by simp
      show "?l ! i = ?r ! i"
      proof (cases "i = nat e")
        case True
        then have "int i = e" using e by simp
        then show ?thesis using i True by (simp add: normalize_group_def)
      next
        case False
        then have "int i \<noteq> e" using e by auto
        then show ?thesis using i False by (simp add: normalize_group_def)
      qed
    qed
    moreover have "fixRangeConversions_loop test (c # cs) =
        fixRangeConversions_loop ((map (\<lambda>i. if int i \<in> set [a..e - 1] then 0 else test ! i) [0..<length test])[nat e := word_of_int v]) cs"
      unfolding c a using e idx True v v255 z by simp
    moreover have "spec_step test c = normalize_group test a e v"
      unfolding c a using e True by (simp add: spec_step_def)
    ultimately show ?thesis by simp
  qed
qed

lemma loop_break:
  "\<not> in_bounds test c \<Longrightarrow> fixRangeConversions_loop test (c # cs) = Inr test"
  by (cases c) (auto simp: in_bounds_def)

lemma loop_refines:
  "\<forall>c\<in>set (takeWhile (in_bounds test) cs). wf_conversion c \<Longrightarrow>
   fixRangeConversions_loop test cs = Inr (foldl spec_step test (takeWhile (in_bounds test) cs))"
proof (induction cs arbitrary: test)
  case Nil then show ?case by simp
next
  case (Cons c cs)
  show ?case
  proof (cases "in_bounds test c")
    case False
    then show ?thesis by (simp add: loop_break)
  next
    case True
    with Cons.prems have wf: "wf_conversion c"
      and rest: "\<forall>c\<in>set (takeWhile (in_bounds (spec_step test c)) cs). wf_conversion c"
      by (simp_all add: in_bounds_spec_step)
    from Cons.IH[OF rest] show ?thesis
      using True wf by (simp add: loop_step_wf in_bounds_spec_step)
  qed
qed


lemma loop_consistent:
  "consistent test cs \<Longrightarrow> fixRangeConversions_loop test cs = Inr test"
proof (induction cs)
  case Nil
  then show ?case by simp
next
  case (Cons c cs)
  obtain pos0 e v where c: "c = ((pos0, e), v)" by (metis prod.exhaust)
  from Cons.prems have rest: "consistent test cs" by (simp add: consistent_def)
  show ?case
  proof (cases "e < int (length test)")
    case False
    then show ?thesis by (simp add: c)
  next
    case True
    with Cons.prems c have "map_option uint (byte_at test e) = Some v"
      by (simp add: consistent_def)
    then obtain j where "py_index (length test) e = Some j" "uint (test ! j) = v"
      by (auto simp: byte_at_def)
    then show ?thesis using True Cons.IH[OF rest] by (simp add: c)
  qed
qed

text \<open>
  C5 (as the code has it). With \<open>--noStructure\<close> the candidate is returned unchanged.
  Otherwise, on conversions made of byte offsets and byte values, \<open>fixRangeConversions\<close>
  applies the normalization of the specification (zero the bytes \<open>start .. end - 1\<close>, store
  the converted value at \<open>end\<close>, when the value is strictly smaller than the byte at
  \<open>end\<close>; otherwise no change) to the conversions in order, up to the first conversion
  whose end offset is not below the length of the candidate: there the loop stops, and
  no later conversion is processed.
\<close>

theorem fixRangeConversions_normalizes_until_out_of_bounds:
  "fixRangeConversions True test cs = Inr test \<and>
   (list_all wf_conversion (takeWhile (in_bounds test) cs) \<longrightarrow>
    fixRangeConversions False test cs =
      Inr (foldl spec_step test (takeWhile (in_bounds test) cs)))"
  by (simp add: fixRangeConversions_def loop_refines list_all_iff)

theorem fixRangeConversions_normalizes_until_out_of_bounds_witness:
  "list_all wf_conversion (takeWhile (in_bounds [7, 8, 9, 1])
        [((Some 0, 2), 5), ((Some 3, 3), 4), ((Some 4, 6), 0), ((Some 0, 1), 0)])
   \<and> fixRangeConversions False [7, 8, 9, 1]
        [((Some 0, 2), 5), ((Some 3, 3), 4), ((Some 4, 6), 0), ((Some 0, 1), 0)] = Inr [0, 0, 5, 1]"
  using fixRangeConversions_normalizes_until_out_of_bounds
    [of "[7, 8, 9, 1]" "[((Some 0, 2), 5), ((Some 3, 3), 4), ((Some 4, 6), 0), ((Some 0, 1), 0)]"]
  by (simp add: in_bounds_def wf_conversion_def spec_step_def normalize_group_def)

text \<open>
  C5 as stated fails: the second conversion below is within bounds and its value 3 is
  smaller than the byte 9 at its end offset, so the claim has it applied (giving the bytes
  0, 3); the code stops at the first conversion, whose end offset 7 is out of bounds, and
  returns the candidate unchanged.
\<close>

theorem fixRangeConversions_stops_at_out_of_bounds:
  "fixRangeConversions False [9, 9] [((Some 5, 7), 1), ((Some 0, 1), 3)] = Inr [9, 9]
   \<and> foldl spec_step [9, 9] [((Some 5, 7), 1), ((Some 0, 1), 3)] = [0, 3]"
  by (simp add: fixRangeConversions_def spec_step_def normalize_group_def)

text \<open>
  C6. A candidate whose conversions are consistent is returned unchanged, byte for byte;
  and applying \<open>fixRangeConversions\<close> a second time with the same conversions gives what
  the first application gave (an exception of the first application included).
\<close>

theorem fixRangeConversions_idempotent:
  "(consistent test cs \<longrightarrow> fixRangeConversions ns test cs = Inr test) \<and>
   (case fixRangeConversions ns test cs of
      Inl e \<Rightarrow> Inl e
    | Inr t \<Rightarrow> fixRangeConversions ns t cs) = fixRangeConversions ns test cs"
  by (auto simp: fixRangeConversions_def loop_consistent loop_idem split: sum.splits)

theorem fixRangeConversions_idempotent_witness:
  "consistent [0, 0, 5, 9] [((Some 0, 2), 5), ((Some 3, 3), 9)] \<and>
   fixRangeConversions False [0, 0, 5, 9] [((Some 0, 2), 5), ((Some 3, 3), 9)] = Inr [0, 0, 5, 9]"
proof -
  have "{0..1::int} = {0, 1}" by auto
  then have h: "consistent [0, 0, 5, 9] [((Some 0, 2), 5), ((Some 3, 3), 9)]"
    by (simp add: consistent_def byte_at_def py_index_def)
  with fixRangeConversions_idempotent [of "[0, 0, 5, 9]" "[((Some 0, 2), 5), ((Some 3, 3), 9)]" False]
  show ?thesis by blast
qed

subsection \<open>Feedback Parser\<close>

lemma sl_start:
  "starts_oneof l \<Longrightarrow>
   structure_loop (l # tr) os stk lr = structure_loop tr os (stk @ [- 1]) lr"
  by (simp add: starts_oneof_def)

lemma sl_read:
  "reads_byte l \<Longrightarrow> last_int l = Inr n \<Longrightarrow>
   structure_loop (l # tr) os stk lr =
   structure_loop tr os (if length stk > 0 \<and> last stk = - 1 then butlast stk @ [n] else stk) (Some n)"
  by (simp add: starts_oneof_def reads_byte_def)

lemma sl_read_err:
  "reads_byte l \<Longrightarrow> last_int l = Inl e \<Longrightarrow> structure_loop (l # tr) os stk lr = Inl e"
  by (simp add: starts_oneof_def reads_byte_def)

lemma sl_finish:
  "finishes_oneof l \<Longrightarrow>
   structure_loop (l # tr) os stk lr =
   (if stk = [] then Inl IndexError
    else case lr of None \<Rightarrow> Inl UnboundLocalError
         | Some n \<Rightarrow> structure_loop tr (os @ [(last stk, n)]) (butlast stk) lr)"
  by (auto simp add: starts_oneof_def reads_byte_def finishes_oneof_def)

lemma sl_other:
  "\<not> starts_oneof l \<Longrightarrow> \<not> reads_byte l \<Longrightarrow> \<not> finishes_oneof l \<Longrightarrow>
   structure_loop (l # tr) os stk lr = structure_loop tr os stk lr"
  by (simp add: starts_oneof_def reads_byte_def finishes_oneof_def)

lemma kinds_excl:
  "starts_oneof l \<Longrightarrow> \<not> reads_byte l" "starts_oneof l \<Longrightarrow> \<not> finishes_oneof l"
  "reads_byte l \<Longrightarrow> \<not> finishes_oneof l"
  by (auto simp: reads_byte_def finishes_oneof_def)

lemma all_le_Suc_split: "(\<forall>k\<le>Suc n. P k) = (P 0 \<and> (\<forall>k\<le>n. P (Suc k)))"
  by (metis Suc_le_mono le0 not0_implies_Suc)

lemma all_less_Suc_split: "(\<forall>k<Suc n. P k) = (P 0 \<and> (\<forall>k<n. P (Suc k)))"
  by (metis Suc_less_eq zero_less_Suc not0_implies_Suc)

lemma ex_less_Suc_split: "(\<exists>j<Suc k. P j) = (P 0 \<or> (\<exists>j<k. P (Suc j)))"
  by (metis Suc_less_eq zero_less_Suc not0_implies_Suc)

lemma wf_from_start:
  "starts_oneof l \<Longrightarrow> wf_structure_from depth bound (l # tr) = wf_structure_from (Suc depth) bound tr"
  by (simp add: wf_structure_from_def kinds_excl all_le_Suc_split all_less_Suc_split ex_less_Suc_split)

lemma wf_from_read:
  "reads_byte l \<Longrightarrow>
   wf_structure_from depth bound (l # tr) = (parses l \<and> wf_structure_from depth True tr)"
  by (auto simp add: wf_structure_from_def kinds_excl all_le_Suc_split all_less_Suc_split ex_less_Suc_split
      reads_byte_def)

lemma wf_from_finish:
  "finishes_oneof l \<Longrightarrow>
   wf_structure_from depth bound (l # tr) =
     (depth > 0 \<and> bound \<and> wf_structure_from (depth - 1) bound tr)"
proof -
  assume f: "finishes_oneof l"
  then have k: "\<not> starts_oneof l" "\<not> reads_byte l" by (auto simp: finishes_oneof_def)
  show ?thesis
  proof (cases "depth > 0 \<and> bound")
    case True
    then obtain d where d: "depth = Suc d" by (cases depth) auto
    show ?thesis using f k True
      by (simp add: d wf_structure_from_def all_le_Suc_split all_less_Suc_split ex_less_Suc_split)
  next
    case False
    have "\<not> wf_structure_from depth bound (l # tr)"
    proof
      assume w: "wf_structure_from depth bound (l # tr)"
      then have "length (filter finishes_oneof (take 1 (l # tr))) \<le> depth + length (filter starts_oneof (take 1 (l # tr)))"
        unfolding wf_structure_from_def by (metis One_nat_def Suc_le_mono le0 length_Cons)
      then have "depth > 0" using f k by simp
      moreover from w f have bound unfolding wf_structure_from_def
        by (metis length_Cons not_less_zero nth_Cons_0 zero_less_Suc)
      ultimately show False using False by simp
    qed
    then show ?thesis using False by auto
  qed
qed

lemma wf_from_other:
  "\<not> starts_oneof l \<Longrightarrow> \<not> reads_byte l \<Longrightarrow> \<not> finishes_oneof l \<Longrightarrow>
   wf_structure_from depth bound (l # tr) = wf_structure_from depth bound tr"
  by (simp add: wf_structure_from_def all_le_Suc_split all_less_Suc_split ex_less_Suc_split)

lemma structure_loop_returns_iff:
  "(\<exists>res. structure_loop tr os stk lr = Inr res) \<longleftrightarrow>
   wf_structure_from (length stk) (lr \<noteq> None) tr"
proof (induction tr arbitrary: os stk lr)
  case Nil
  show ?case by (cases lr) (simp_all add: wf_structure_from_def)
next
  case (Cons l tr)
  consider (s) "starts_oneof l" | (r) "reads_byte l" | (f) "finishes_oneof l"
    | (o) "\<not> starts_oneof l" "\<not> reads_byte l" "\<not> finishes_oneof l" by blast
  then show ?case
  proof cases
    case s
    then show ?thesis using Cons.IH[of os "stk @ [- 1]" lr] by (simp add: sl_start wf_from_start del: structure_loop.simps(2))
  next
    case r
    show ?thesis
    proof (cases "last_int l")
      case (Inl e)
      then show ?thesis using r by (simp add: sl_read_err wf_from_read parses_def del: structure_loop.simps(2))
    next
      case (Inr n)
      have "length (if length stk > 0 \<and> last stk = - 1 then butlast stk @ [n] else stk) = length stk"
        by simp
      then show ?thesis using r Inr
          Cons.IH[of os "if length stk > 0 \<and> last stk = - 1 then butlast stk @ [n] else stk" "Some n"]
        by (simp add: sl_read wf_from_read parses_def del: structure_loop.simps(2))
    qed
  next
    case f
    show ?thesis
    proof (cases "stk = [] \<or> lr = None")
      case True
      then show ?thesis using f by (auto simp add: sl_finish wf_from_finish simp del: structure_loop.simps(2))
    next
      case False
      then obtain n where n: "lr = Some n" and ne: "stk \<noteq> []" by auto
      then show ?thesis using f Cons.IH[of "os @ [(last stk, n)]" "butlast stk" lr]
        by (simp add: sl_finish wf_from_finish del: structure_loop.simps(2))
    qed
  next
    case o
    then show ?thesis using Cons.IH[of os stk lr] by (simp add: sl_other wf_from_other del: structure_loop.simps(2))
  qed
qed

lemma ex_le_Suc_split: "(\<exists>j\<le>Suc k. P j) = (P 0 \<or> (\<exists>j\<le>k. P (Suc j)))"
  by (metis Suc_le_mono le0 not0_implies_Suc)

lemma wf_conversions_from_Cons:
  "wf_conversions_from rb mb (l # tr) =
     (line_ok rb mb l \<and> wf_conversions_from (rb \<or> reads_at l) (mb \<or> finishes_multi l) tr)"
  unfolding wf_conversions_from_def line_ok_def all_less_Suc_split ex_le_Suc_split length_Cons
  by (simp add: ex_le_Suc_split) blast

lemma rangeConversions_loop_returns_iff:
  "(\<exists>res. rangeConversions_loop tr cs sm mf lr cm = Inr res) \<longleftrightarrow>
   wf_conversions_from (lr \<noteq> None) (cm \<noteq> None) tr"
proof (induction tr arbitrary: cs sm mf lr cm)
  case Nil
  show ?case by (simp add: wf_conversions_from_def)
next
  case (Cons l tr)
  note defs = wf_conversions_from_Cons line_ok_def parses_def reads_at_def finishes_multi_def
    converts_def Let_def
  show ?case
  proof (cases "py_in ''Reading byte at'' l")
    case rd: True
    show ?thesis
    proof (cases "last_int l")
      case (Inl e)
      then show ?thesis using rd by (simp add: defs)
    next
      case (Inr n)
      then show ?thesis using rd
        by (cases "py_in ''FINISHED MULTI-BYTE READ'' l"; cases "py_in ''Converting out-of-range value'' l"; cases cm)
           (simp_all add: defs Cons.IH)
    qed
  next
    case nrd: False
    show ?thesis
    proof (cases "py_in ''Converting out-of-range value'' l")
      case ncv: False
      then show ?thesis using nrd
        by (cases "py_in ''FINISHED MULTI-BYTE READ'' l"; cases lr)
           (simp_all add: defs Cons.IH)
    next
      case cv: True
      show ?thesis
      proof (cases "last_int l")
        case (Inl e)
        then show ?thesis using nrd cv
          by (cases "py_in ''FINISHED MULTI-BYTE READ'' l"; cases lr; cases cm)
             (simp_all add: defs Cons.IH)
      next
        case (Inr n)
        then show ?thesis using nrd cv
          by (cases "py_in ''FINISHED MULTI-BYTE READ'' l"; cases lr; cases cm)
             (simp_all add: defs Cons.IH)
      qed
    qed
  qed
qed

text \<open>
  C3 (as the code has it). With \<open>--noStructure\<close>, \<open>structure\<close> returns no span and the length
  of the candidate, whatever the trace. Otherwise \<open>structure\<close> returns normally exactly on
  the traces whose OneOf markers are well formed (every byte-read line ends in a number,
  there is a byte read, end markers never outnumber begin markers, and every end marker
  comes after a byte read); \<open>rangeConversions\<close> returns normally exactly on the traces whose
  multi-byte markers are well formed, and gives no conversion on the empty trace.
\<close>

theorem feedback_parsers_return_on_well_formed_traces:
  "structure True cur tr = Inr ([], int (length cur)) \<and>
   ((\<exists>res. structure False cur tr = Inr res) \<longleftrightarrow> wf_structure_from 0 False tr) \<and>
   ((\<exists>cs. rangeConversions tr = Inr cs) \<longleftrightarrow> wf_conversions_from False False tr) \<and>
   rangeConversions [] = Inr []"
  using structure_loop_returns_iff [of tr "[]" "[]" None]
    rangeConversions_loop_returns_iff [of tr "[]" False None None None]
  by (simp add: structure_def rangeConversions_def)

theorem feedback_parsers_return_on_well_formed_traces_witness:
  "wf_structure_from 0 False
     [''STARTING OneOf CALL'', ''Reading byte at 3'', ''FINISHED OneOf CALL'',
      ''STARTING MULTI-BYTE READ'', ''Reading byte at 4'', ''FINISHED MULTI-BYTE READ'',
      ''Converting out-of-range value 7''] \<and>
   wf_conversions_from False False
     [''STARTING OneOf CALL'', ''Reading byte at 3'', ''FINISHED OneOf CALL'',
      ''STARTING MULTI-BYTE READ'', ''Reading byte at 4'', ''FINISHED MULTI-BYTE READ'',
      ''Converting out-of-range value 7''] \<and>
   structure False [1, 2, 3, 4, 5]
     [''STARTING OneOf CALL'', ''Reading byte at 3'', ''FINISHED OneOf CALL'',
      ''STARTING MULTI-BYTE READ'', ''Reading byte at 4'', ''FINISHED MULTI-BYTE READ'',
      ''Converting out-of-range value 7''] = Inr ([(3, 3)], 4) \<and>
   rangeConversions
     [''STARTING OneOf CALL'', ''Reading byte at 3'', ''FINISHED OneOf CALL'',
      ''STARTING MULTI-BYTE READ'', ''Reading byte at 4'', ''FINISHED MULTI-BYTE READ'',
      ''Converting out-of-range value 7''] = Inr [((Some 4, 4), 7)]"
proof -
  let ?tr = "[''STARTING OneOf CALL'', ''Reading byte at 3'', ''FINISHED OneOf CALL'',
      ''STARTING MULTI-BYTE READ'', ''Reading byte at 4'', ''FINISHED MULTI-BYTE READ'',
      ''Converting out-of-range value 7'']"
  have s: "structure False [1, 2, 3, 4, 5] ?tr = Inr ([(3, 3)], 4)"
    by (simp add: structure_def last_int_def py_split_def is_space_def py_int_def
        py_unsigned_def digit_def)
  have c: "rangeConversions ?tr = Inr [((Some 4, 4), 7)]"
    by (simp add: rangeConversions_def last_int_def py_split_def is_space_def py_int_def
        py_unsigned_def digit_def)
  from s c feedback_parsers_return_on_well_formed_traces [of "[1, 2, 3, 4, 5]" ?tr]
  show ?thesis by simp
qed

text \<open>
  C3 as stated fails: on the empty trace and on a trace with no byte-read marker
  \<open>structure\<close> reads its unbound local \<open>lastRead\<close>; on an end marker with no begin marker it
  indexes the empty stack; \<open>rangeConversions\<close> reads the unbound \<open>currentMulti\<close> on a
  conversion marker with no completed multi-byte read before it, and the unbound
  \<open>lastRead\<close> on the end of a multi-byte read with no byte read.
\<close>

theorem feedback_parsers_raise_on_malformed_traces:
  "structure False [1, 2, 3] [] = Inl UnboundLocalError \<and>
   structure False [1, 2, 3] [''Running: Test_Foo''] = Inl UnboundLocalError \<and>
   structure False [1, 2, 3] [''Reading byte at 0'', ''FINISHED OneOf CALL''] = Inl IndexError \<and>
   rangeConversions [''Reading byte at 0'', ''Converting out-of-range value 3''] =
     Inl UnboundLocalError \<and>
   rangeConversions [''FINISHED MULTI-BYTE READ''] = Inl UnboundLocalError"
  by (simp add: structure_def rangeConversions_def last_int_def py_split_def is_space_def
      py_int_def py_unsigned_def digit_def)

subsection \<open>The run of the reducer\<close>

lemmas run_defs = main_def reduce_def startup_def finalize_def runCandidate_def
  writeAndRunCandidate_def updateCurrent_def trial_def init_state_def no_snapshots_def
  iteration_def guarded_def skip_step_def sweepFrom_def
  oneOfRemovalPass_def chunkRemovalPass_def reduceAndDeletePass_def allRangePass_def
  oneOfSwapPass_def byteReducePass_def byteReduceSweep_def patternSearchPass_def
  oneOfRemovals_def chunkRemovals_def reduceAndDeletes_def rangeRemovals_def oneOfSwaps_def
  byteReductions_def patternReplacements_def banews_def
  structure_def rangeConversions_def fixRangeConversions_def
  last_int_def py_split_def is_space_def py_int_def py_unsigned_def digit_def
  slice_to_def slice_from_def slice_def py_bound_def py_index_def Let_def

lemma startup_seed_rejected:
  assumes "\<not> clock w 1 > real_of_int (timeout a)" "\<not> search a"
    "\<not> checks (criteria a) (binary w 1 (input_test w))"
  shows "startup w a =
     Inl (Return 1, init_state\<lparr>candidateRuns := 1,
            history := [Ran (input_test w) (binary w 1 (input_test w))],
            diagnostics := [''STARTING TEST DOES NOT SATISFY REDUCTION CRITERIA!'']\<rparr>)"
  using assms by (simp add: startup_def runCandidate_def init_state_def Let_def)

text \<open>
  C8. Without \<open>--search\<close>, when the trace of the first run (of the input file) does not
  satisfy the criteria, \<open>main\<close> returns 1 whatever the fuel, having printed the
  diagnostic; the only thing it did is that one run: the input file is not read into
  \<open>currentTest\<close>, which is untouched, and the output file is not written.
\<close>

theorem seed_rejected_aborts_before_reduction:
  assumes "clock w 1 \<le> real_of_int (timeout a)" "\<not> search a"
    "\<not> checks (criteria a) (binary w 1 (input_test w))"
  shows "\<exists>st. main fuel w a = Some (Return 1, st) \<and>
     diagnostics st = [''STARTING TEST DOES NOT SATISFY REDUCTION CRITERIA!''] \<and>
     out st = None \<and>
     history st = [Ran (input_test w) (binary w 1 (input_test w))] \<and>
     currentTest st = currentTest init_state \<and> candidateRuns st = 1"
  using assms by (simp add: main_def reduce_def startup_seed_rejected init_state_def)

theorem seed_rejected_aborts_before_reduction_witness:
  "clock (world_reads_first_byte [5, 6, 7]) 1
     \<le> real_of_int (timeout (default_args\<lparr>criteria := Some ''ERROR: Crashed''\<rparr>)) \<and>
   \<not> search (default_args\<lparr>criteria := Some ''ERROR: Crashed''\<rparr>) \<and>
   \<not> checks (criteria (default_args\<lparr>criteria := Some ''ERROR: Crashed''\<rparr>))
       (binary (world_reads_first_byte [5, 6, 7]) 1 (input_test (world_reads_first_byte [5, 6, 7]))) \<and>
   (\<exists>st. main 0 (world_reads_first_byte [5, 6, 7]) (default_args\<lparr>criteria := Some ''ERROR: Crashed''\<rparr>)
            = Some (Return 1, st) \<and> out st = None \<and>
          diagnostics st = [''STARTING TEST DOES NOT SATISFY REDUCTION CRITERIA!''])"
  using seed_rejected_aborts_before_reduction
    [of "world_reads_first_byte [5, 6, 7]" "default_args\<lparr>criteria := Some ''ERROR: Crashed''\<rparr>" 0]
  by (simp add: world_reads_first_byte_def default_args_def) blast

text \<open>
  C4 fails on the code: with \<open>--timeout 0\<close> the first call of \<open>runCandidate\<close>, which is
  outside the \<open>try\<close> block of \<open>main\<close>, finds the time elapsed above 0 and raises
  TimeoutException; nothing catches it, and the run ends with no output file written.
\<close>

theorem timeout_zero_raises_uncaught:
  "main fuel (world_reads_first_byte [5, 6, 7]) (default_args\<lparr>timeout := 0\<rparr>)
     = Some (Uncaught TimeoutException, init_state\<lparr>candidateRuns := 1\<rparr>)
   \<and> out (init_state\<lparr>candidateRuns := 1\<rparr>) = None"
  by (simp add: main_def reduce_def startup_def runCandidate_def world_reads_first_byte_def
      default_args_def init_state_def)

lemma startup_Inl_not_Return0: "startup w a = Inl (oc, st) \<Longrightarrow> oc \<noteq> Return 0"
  by (auto simp: startup_def Let_def split: prod.splits sum.splits if_splits)

lemma main_Return0:
  "main fuel w a = Some (Return 0, st') \<Longrightarrow>
   \<exists>st. reduce fuel w a = Some (Inr st) \<and> st' = finalize a st"
  by (auto simp: main_def reduce_def split: option.splits sum.splits prod.splits if_splits
      dest: startup_Inl_not_Return0)

lemma finalize_pads:
  "\<not> noPad a \<Longrightarrow>
   int (length (currentTest (finalize a st))) \<ge> snd (s st) + 1 \<and>
   (\<exists>n. currentTest (finalize a st) = currentTest st @ replicate n 0) \<and>
   out (finalize a st) = Some (currentTest (finalize a st)) \<and> s (finalize a st) = s st"
  by (auto simp: finalize_def Let_def intro: exI[of _ 0])

text \<open>
  C9. A run that returns 0 without \<open>--noPad\<close> went through the end of \<open>main\<close> from some state
  \<open>st\<close> of the reduction; with \<open>lastReadOffset\<close> the second component of the structure \<open>s\<close>
  of that state, the final candidate has at least \<open>lastReadOffset + 1\<close> bytes, it is the
  candidate of \<open>st\<close> followed by zero bytes only, and it is what the output file holds.
\<close>

theorem padding_restores_reachability:
  assumes "\<not> noPad a" "main fuel w a = Some (Return 0, st')"
  shows "\<exists>st. reduce fuel w a = Some (Inr st) \<and> st' = finalize a st \<and>
     int (length (currentTest st')) \<ge> snd (s st) + 1 \<and>
     (\<exists>n. currentTest st' = currentTest st @ replicate n 0) \<and>
     out st' = Some (currentTest st')"
  using main_Return0[OF assms(2)] finalize_pads[OF assms(1)] by auto

theorem padding_restores_reachability_witness:
  "\<not> noPad default_args \<and>
   (\<exists>st st'. main (Suc (Suc (Suc 0))) (world_reads_first_byte [5]) default_args = Some (Return 0, st') \<and>
      reduce (Suc (Suc (Suc 0))) (world_reads_first_byte [5]) default_args = Some (Inr st) \<and>
      st' = finalize default_args st \<and> currentTest st' = [0] \<and> out st' = Some [0])"
proof -
  obtain st' where m: "main (Suc (Suc (Suc 0))) (world_reads_first_byte [5]) default_args = Some (Return 0, st')"
    and o: "currentTest st' = [0]" "out st' = Some [0]"
    by (simp add: run_defs world_reads_first_byte_def default_args_def)
  have np: "\<not> noPad default_args" by (simp add: default_args_def)
  from padding_restores_reachability [OF np m] np m o show ?thesis by blast
qed

subsection \<open>What every trial keeps, the whole reduction keeps\<close>

text \<open>The passes change the state only through \<open>trial\<close>: a property of the state that every
  trial keeps is kept by every sweep, pass and iteration, and by the main loop.\<close>

lemma sweep_preserves:
  assumes T: "\<And>st nt res st'. P st \<Longrightarrow> trial w a nt st = (res, st') \<Longrightarrow> good G res \<Longrightarrow> P st'"
  shows "P st \<Longrightarrow> sweep w a ms st = (res, st') \<Longrightarrow> good G res \<Longrightarrow> P st'"
proof (induction ms arbitrary: st)
  case Nil
  then show ?case by simp
next
  case (Cons m ms)
  obtain p nt where m: "m = (p, nt)" by (cases m)
  obtain tr st1 where t: "trial w a nt st = (tr, st1)" by (cases "trial w a nt st")
  show ?case
  proof (cases tr)
    case (Accepted u)
    with Cons.prems t m have "st' = st1" by simp
    moreover have "P st1" using T[OF Cons.prems(1) t] Accepted by (simp add: good_def)
    ultimately show ?thesis by simp
  next
    case NotFound
    have p1: "P st1" using T[OF Cons.prems(1) t] NotFound by (simp add: good_def)
    from Cons.prems(2) t m NotFound have "sweep w a ms st1 = (res, st')" by simp
    from Cons.IH[OF p1 this Cons.prems(3)] show ?thesis .
  next
    case (Raised e)
    with Cons.prems t m have "st' = st1" "res = Raised e" by simp_all
    moreover have "good G tr \<Longrightarrow> P st1" using T[OF Cons.prems(1) t] by simp
    ultimately show ?thesis using Cons.prems(3) Raised by (simp add: good_def)
  qed
qed

lemma whileChanged_preserves:
  assumes B: "\<And>p st res st'. P st \<Longrightarrow> body p st = (res, st') \<Longrightarrow> good G res \<Longrightarrow> P st'"
  shows "P st \<Longrightarrow> whileChanged fuel body p st = Some (eo, st') \<Longrightarrow> good_exn G eo \<Longrightarrow> P st'"
proof (induction fuel arbitrary: p st)
  case 0
  then show ?case by simp
next
  case (Suc fuel)
  obtain res st1 where b: "body p st = (res, st1)" by (cases "body p st")
  show ?case
  proof (cases res)
    case (Accepted p')
    have p1: "P st1" using B[OF Suc.prems(1) b] Accepted by (simp add: good_def)
    from Suc.prems(2) b Accepted have "whileChanged fuel body p' st1 = Some (eo, st')" by simp
    from Suc.IH[OF p1 this Suc.prems(3)] show ?thesis .
  next
    case NotFound
    with Suc.prems(2) b have "st' = st1" by simp
    then show ?thesis using B[OF Suc.prems(1) b] NotFound by (simp add: good_def)
  next
    case (Raised e)
    with Suc.prems(2) b have "st' = st1" "eo = Some e" by simp_all
    then show ?thesis using B[OF Suc.prems(1) b] Raised Suc.prems(3)
      by (simp add: good_def good_exn_def)
  qed
qed

lemma sweepFrom_preserves:
  assumes T: "\<And>st nt res st'. P st \<Longrightarrow> trial w a nt st = (res, st') \<Longrightarrow> good G res \<Longrightarrow> P st'"
  shows "P st \<Longrightarrow> sweepFrom w a muts sp st = (res, st') \<Longrightarrow> good G res \<Longrightarrow> P st'"
proof -
  assume p: "P st" and sf: "sweepFrom w a muts sp st = (res, st')" and g: "good G res"
  obtain r1 st1 where s1: "sweep w a (muts (currentTest st) [sp..<length (currentTest st)]) st = (r1, st1)"
    by (cases "sweep w a (muts (currentTest st) [sp..<length (currentTest st)]) st")
  show "P st'"
  proof (cases r1)
    case NotFound
    have p1: "P st1" using sweep_preserves[of P w a G, OF T p s1] NotFound by (simp add: good_def)
    from sf s1 NotFound have "sweep w a (muts (currentTest st1) [0..<sp]) st1 = (res, st')"
      by (simp add: sweepFrom_def)
    from sweep_preserves[of P w a G, OF T p1 this g] show ?thesis .
  next
    case (Accepted b)
    with sf s1 have "res = r1" "st' = st1" by (simp_all add: sweepFrom_def)
    with sweep_preserves[of P w a G, OF T p s1] g show ?thesis by simp
  next
    case (Raised e)
    with sf s1 have "res = r1" "st' = st1" by (simp_all add: sweepFrom_def)
    with sweep_preserves[of P w a G, OF T p s1] g show ?thesis by simp
  qed
qed

lemma byteReduceSweep_preserves:
  assumes T: "\<And>st nt res st'. P st \<Longrightarrow> trial w a nt st = (res, st') \<Longrightarrow> good G res \<Longrightarrow> P st'"
  shows "P st \<Longrightarrow> byteReduceSweep w a sp st = (res, st') \<Longrightarrow> good G res \<Longrightarrow> P st'"
proof -
  assume p: "P st" and sf: "byteReduceSweep w a sp st = (res, st')" and g: "good G res"
  obtain r1 st1 where s1: "sweep w a (byteReductions (currentTest st) [sp..<length (currentTest st)]) st = (r1, st1)"
    by (cases "sweep w a (byteReductions (currentTest st) [sp..<length (currentTest st)]) st")
  note k1 = sweep_preserves[of P w a G, OF T p s1]
  show "P st'"
  proof (cases r1)
    case (Accepted b)
    with sf s1 have "st' = st1" by (simp add: byteReduceSweep_def)
    with k1 Accepted show ?thesis by (simp add: good_def)
  next
    case (Raised e)
    with sf s1 have "st' = st1" "res = Raised e" by (simp_all add: byteReduceSweep_def)
    with k1 Raised g show ?thesis by (simp add: good_def)
  next
    case NotFound
    have p1: "P st1" using k1 NotFound by (simp add: good_def)
    obtain r2 st2 where s2: "sweep w a (byteReductions (currentTest st1)
        [0..<min sp (length (currentTest st1))]) st1 = (r2, st2)"
      by (cases "sweep w a (byteReductions (currentTest st1) [0..<min sp (length (currentTest st1))]) st1")
    note k2 = sweep_preserves[of P w a G, OF T p1 s2]
    show ?thesis
    proof (cases r2)
      case (Accepted b)
      with sf s1 s2 NotFound have "st' = st2" by (simp add: byteReduceSweep_def)
      with k2 Accepted show ?thesis by (simp add: good_def)
    next
      case (Raised e)
      with sf s1 s2 NotFound have "st' = st2" "res = Raised e" by (simp_all add: byteReduceSweep_def)
      with k2 Raised g show ?thesis by (simp add: good_def)
    next
      case nf: NotFound
      with sf s1 s2 NotFound have "st' = st2" by (simp add: byteReduceSweep_def split: if_splits)
      with k2 nf show ?thesis by (simp add: good_def)
    qed
  qed
qed

lemma passes_preserve:
  assumes T: "\<And>st nt res st'. P st \<Longrightarrow> trial w a nt st = (res, st') \<Longrightarrow> good G res \<Longrightarrow> P st'"
    and p: "P st" and g: "good_exn G eo"
  shows "oneOfRemovalPass fuel w a st = Some (eo, st') \<Longrightarrow> P st'"
    and "chunkRemovalPass fuel w a k st = Some (eo, st') \<Longrightarrow> P st'"
    and "reduceAndDeletePass fuel w a k st = Some (eo, st') \<Longrightarrow> P st'"
    and "allRangePass fuel w a mr st = Some (eo, st') \<Longrightarrow> P st'"
    and "oneOfSwapPass fuel w a st = Some (eo, st') \<Longrightarrow> P st'"
    and "byteReducePass fuel w a st = Some (eo, st') \<Longrightarrow> P st'"
    and "patternSearchPass fuel w a st = Some (eo, st') \<Longrightarrow> P st'"
proof -
  note sw = sweep_preserves[of P w a G, OF T]
  note sf = sweepFrom_preserves[of P w a G, OF T]
  note br = byteReduceSweep_preserves[of P w a G, OF T]
  show "oneOfRemovalPass fuel w a st = Some (eo, st') \<Longrightarrow> P st'"
    unfolding oneOfRemovalPass_def
    by (rule whileChanged_preserves[of P _ G, OF _ p _ g]) (rule sw)
  show "chunkRemovalPass fuel w a k st = Some (eo, st') \<Longrightarrow> P st'"
    unfolding chunkRemovalPass_def
    by (rule whileChanged_preserves[of P _ G, OF _ p _ g]) (rule sf)
  show "reduceAndDeletePass fuel w a k st = Some (eo, st') \<Longrightarrow> P st'"
    unfolding reduceAndDeletePass_def
    by (rule whileChanged_preserves[of P _ G, OF _ p _ g]) (rule sw)
  show "allRangePass fuel w a mr st = Some (eo, st') \<Longrightarrow> P st'"
    unfolding allRangePass_def
    by (rule whileChanged_preserves[of P _ G, OF _ p _ g]) (rule sf)
  show "oneOfSwapPass fuel w a st = Some (eo, st') \<Longrightarrow> P st'"
    unfolding oneOfSwapPass_def
    by (rule whileChanged_preserves[of P _ G, OF _ p _ g]) (rule sw)
  show "byteReducePass fuel w a st = Some (eo, st') \<Longrightarrow> P st'"
    unfolding byteReducePass_def
    by (rule whileChanged_preserves[of P _ G, OF _ p _ g]) (rule br)
  show "patternSearchPass fuel w a st = Some (eo, st') \<Longrightarrow> P st'"
    unfolding patternSearchPass_def
    by (rule whileChanged_preserves[of P _ G, OF _ p _ g]) (rule sw)
qed

lemma step_preservesD:
  "step_preserves P G f \<Longrightarrow> P (snd x) \<Longrightarrow> f x = Some (eo, y) \<Longrightarrow> good_exn G eo \<Longrightarrow> P (snd y)"
  unfolding step_preserves_def by blast

lemma guarded_preserves:
  assumes "\<And>st eo st'. P st \<Longrightarrow> pass st = Some (eo, st') \<Longrightarrow> good_exn G eo \<Longrightarrow> P st'"
  shows "step_preserves P G (guarded get_last set_last pass)"
  unfolding step_preserves_def guarded_def
  by (auto split: prod.splits option.splits if_splits simp: good_exn_def dest: assms)

lemma skip_preserves: "step_preserves P G skip_step"
  by (simp add: step_preserves_def skip_step_def)

lemma run_steps_Nil_preserves: "step_preserves P G (run_steps [])"
  by (simp add: step_preserves_def)

lemma run_steps_Cons_preserves:
  assumes f: "step_preserves P G f" and r: "step_preserves P G (run_steps fs)"
  shows "step_preserves P G (run_steps (f # fs))"
  unfolding step_preserves_def
proof (intro allI impI)
  fix x eo y
  assume p: "P (snd x)" and e: "run_steps (f # fs) x = Some (eo, y)" and g: "good_exn G eo"
  show "P (snd y)"
  proof (cases "f x")
    case None
    with e show ?thesis by simp
  next
    case (Some z)
    obtain eo1 y1 where z: "z = (eo1, y1)" by (cases z)
    from Some z have fx: "f x = Some (eo1, y1)" by simp
    show ?thesis
    proof (cases eo1)
      case None
      have "good_exn G eo1" using None by (simp add: good_exn_def)
      from step_preservesD[OF f p fx this] have p1: "P (snd y1)" .
      from e fx None have "run_steps fs y1 = Some (eo, y)" by simp
      from step_preservesD[OF r p1 this g] show ?thesis .
    next
      case (Some ex)
      with e fx have "eo = eo1" "y = y1" by simp_all
      with step_preservesD[OF f p fx] g show ?thesis by simp
    qed
  qed
qed

lemma cond_step_preserves:
  assumes f: "step_preserves P G f" and h: "step_preserves P G h"
  shows "step_preserves P G (\<lambda>x. if c x then f x else h x)"
  unfolding step_preserves_def
proof (intro allI impI)
  fix x eo y
  assume p: "P (snd x)" and e: "(if c x then f x else h x) = Some (eo, y)" and g: "good_exn G eo"
  show "P (snd y)"
  proof (cases "c x")
    case True
    with e have "f x = Some (eo, y)" by simp
    from step_preservesD[OF f p this g] show ?thesis .
  next
    case False
    with e have "h x = Some (eo, y)" by simp
    from step_preservesD[OF h p this g] show ?thesis .
  qed
qed

lemma iteration_preserves:
  assumes T: "\<And>st nt res st'. P st \<Longrightarrow> trial w a nt st = (res, st') \<Longrightarrow> good G res \<Longrightarrow> P st'"
  shows "step_preserves P G (iteration fuel w a mr oldTest)"
proof -
  note pp = passes_preserve[of P w a G, OF T]
  have s1: "step_preserves P G (guarded lastOneOfRemovalTest (\<lambda>v sn. sn\<lparr>lastOneOfRemovalTest := v\<rparr>)
           (oneOfRemovalPass fuel w a))"
    by (rule guarded_preserves) (rule pp(1), assumption+)
  have s2: "step_preserves P G (guarded (\<lambda>sn. lastChunkRemovalTest sn k)
                     (\<lambda>v sn. sn\<lparr>lastChunkRemovalTest := (lastChunkRemovalTest sn)(k := v)\<rparr>)
                     (chunkRemovalPass fuel w a k))" for k
    by (rule guarded_preserves) (rule pp(2), assumption+)
  have s3: "step_preserves P G (guarded (\<lambda>sn. lastReduceAndDeleteTest sn k)
                     (\<lambda>v sn. sn\<lparr>lastReduceAndDeleteTest := (lastReduceAndDeleteTest sn)(k := v)\<rparr>)
                     (reduceAndDeletePass fuel w a k))" for k
    by (rule guarded_preserves) (rule pp(3), assumption+)
  have s4: "step_preserves P G (if fast a then skip_step
           else guarded lastAllRangeTest (\<lambda>v sn. sn\<lparr>lastAllRangeTest := v\<rparr>)
                  (allRangePass fuel w a mr))"
  proof (cases "fast a")
    case True
    then show ?thesis by (simp add: skip_preserves)
  next
    case False
    have "step_preserves P G (guarded lastAllRangeTest (\<lambda>v sn. sn\<lparr>lastAllRangeTest := v\<rparr>)
                  (allRangePass fuel w a mr))"
      by (rule guarded_preserves) (rule pp(4), assumption+)
    with False show ?thesis by simp
  qed
  have s5: "step_preserves P G (guarded lastOneOfSwapTest (\<lambda>v sn. sn\<lparr>lastOneOfSwapTest := v\<rparr>)
             (oneOfSwapPass fuel w a))"
    by (rule guarded_preserves) (rule pp(5), assumption+)
  have s6: "step_preserves P G (guarded lastByteReduceTest (\<lambda>v sn. sn\<lparr>lastByteReduceTest := v\<rparr>)
             (byteReducePass fuel w a))"
    by (rule guarded_preserves) (rule pp(6), assumption+)
  have s7': "step_preserves P G (guarded lastPatternSearchTest (\<lambda>v sn. sn\<lparr>lastPatternSearchTest := v\<rparr>)
                     (patternSearchPass fuel w a))"
    by (rule guarded_preserves) (rule pp(7), assumption+)
  have s7: "step_preserves P G (\<lambda>x. if (slow a \<or> slowest a) \<and> oldTest = currentTest (snd x) then
                   guarded lastPatternSearchTest (\<lambda>v sn. sn\<lparr>lastPatternSearchTest := v\<rparr>)
                     (patternSearchPass fuel w a) x
                 else skip_step x)"
    by (rule cond_step_preserves[OF s7' skip_preserves])
  show ?thesis
    unfolding iteration_def list.map append.simps
    by (intro run_steps_Cons_preserves run_steps_Nil_preserves s1 s2 s3 s4 s5 s6 s7)
qed

lemma mainLoop_preserves:
  assumes T: "\<And>st nt res st'. P st \<Longrightarrow> trial w a nt st = (res, st') \<Longrightarrow> good G res \<Longrightarrow> P st'"
  shows "P (snd x) \<Longrightarrow> mainLoop fuel w a mr isz oldTest x = Some (eo, st') \<Longrightarrow> good_exn G eo
     \<Longrightarrow> P st'"
proof (induction fuel arbitrary: x oldTest)
  case 0
  then show ?case by simp
next
  case (Suc fuel)
  have it: "step_preserves P G (iteration fuel w a mr (currentTest (snd x)))"
    by (rule iteration_preserves) (rule T)
  show ?case
  proof (cases "oldTest \<noteq> Some (currentTest (snd x)) \<and> isz \<noteq> 0")
    case False
    with Suc.prems show ?thesis by (auto split: if_splits)
  next
    case True
    show ?thesis
    proof (cases "iteration fuel w a mr (currentTest (snd x)) x")
      case None
      with Suc.prems True show ?thesis by simp
    next
      case (Some z)
      obtain eo1 y where z: "z = (eo1, y)" by (cases z)
      show ?thesis
      proof (cases eo1)
        case None
        have "good_exn G eo1" using None by (simp add: good_exn_def)
        from Some z have ix: "iteration fuel w a mr (currentTest (snd x)) x = Some (eo1, y)" by simp
        from step_preservesD[OF it Suc.prems(1) ix \<open>good_exn G eo1\<close>] have "P (snd y)" .
        moreover from Suc.prems(2) True Some z None
        have "mainLoop fuel w a mr isz (Some (currentTest (snd x))) y = Some (eo, st')" by simp
        ultimately show ?thesis using Suc.IH Suc.prems(3) by blast
      next
        case (Some ex)
        with Suc.prems(2) True \<open>iteration fuel w a mr (currentTest (snd x)) x = Some z\<close> z
        have "eo = eo1" "st' = snd y" by simp_all
        moreover from \<open>iteration fuel w a mr (currentTest (snd x)) x = Some z\<close> z
        have ix: "iteration fuel w a mr (currentTest (snd x)) x = Some (eo1, y)" by simp
        ultimately show ?thesis using step_preservesD[OF it Suc.prems(1) ix] Suc.prems(3) by simp
      qed
    qed
  qed
qed

subsection \<open>Reduction without structure\<close>

lemma last_int_not_timeout: "last_int l \<noteq> Inl TimeoutException"
  by (auto simp: last_int_def split: list.splits option.splits)

lemma rangeConversions_loop_not_timeout:
  "rangeConversions_loop tr cs sm mf lr cm \<noteq> Inl TimeoutException"
proof (induction tr arbitrary: cs sm mf lr cm)
  case Nil
  then show ?case by simp
next
  case (Cons l tr)
  show ?case
  proof (cases "last_int l")
    case (Inl x)
    then have "x \<noteq> TimeoutException" using last_int_not_timeout[of l] by auto
    then show ?thesis using Inl
      by (cases "py_in ''Reading byte at'' l"; cases "py_in ''FINISHED MULTI-BYTE READ'' l";
          cases "py_in ''Converting out-of-range value'' l"; cases lr; cases cm)
         (simp_all add: Let_def Cons.IH)
  next
    case (Inr n)
    then show ?thesis
      by (cases "py_in ''Reading byte at'' l"; cases "py_in ''FINISHED MULTI-BYTE READ'' l";
          cases "py_in ''Converting out-of-range value'' l"; cases lr; cases cm)
         (simp_all add: Let_def Cons.IH)
  qed
qed

lemma trial_structure_off:
  assumes ns: "noStructure a" and p: "structure_off st" and t: "trial w a nt st = (res, st')"
    and g: "good only_timeout res"
  shows "structure_off st'"
proof (cases "clock w (candidateRuns st + 1) > real_of_int (timeout a)")
  case True
  with t have "st' = st\<lparr>candidateRuns := candidateRuns st + 1\<rparr>"
    by (simp add: trial_def writeAndRunCandidate_def runCandidate_def Let_def)
  with p show ?thesis by (simp add: structure_off_def)
next
  case False
  define tr where "tr = binary w (candidateRuns st + 1) nt"
  define st2 where "st2 = st\<lparr>candidateRuns := candidateRuns st + 1,
      history := history st @ [Ran nt tr], r := tr\<rparr>"
  show ?thesis
  proof (cases "checks (criteria a) tr")
    case nc: False
    with t False have "st' = st2"
      by (simp add: trial_def writeAndRunCandidate_def runCandidate_def Let_def tr_def st2_def)
    with p show ?thesis by (simp add: structure_off_def st2_def)
  next
    case c: True
    with t False have u: "(case updateCurrent a nt st2 of
                   (Some e, st3) \<Rightarrow> (Raised e, st3)
                 | (None, st3) \<Rightarrow> (Accepted (), st3)) = (res, st')"
      by (simp add: trial_def writeAndRunCandidate_def runCandidate_def Let_def tr_def st2_def)
    show ?thesis
    proof (cases "rangeConversions tr")
      case (Inl e)
      then have "e \<noteq> TimeoutException"
        using rangeConversions_loop_not_timeout[of tr "[]" False None None None]
        by (auto simp: rangeConversions_def)
      moreover from u Inl have "res = Raised e"
        by (simp add: updateCurrent_def Let_def st2_def)
      ultimately show ?thesis using g by (simp add: good_def only_timeout_def)
    next
      case (Inr cs)
      with u ns have "st' = st2\<lparr>currentTest := nt, out := Some nt,
          history := history st2 @ [Wrote nt], s := ([], int (length nt))\<rparr>"
        by (simp add: updateCurrent_def Let_def st2_def fixRangeConversions_def structure_def)
      then show ?thesis by (simp add: structure_off_def)
    qed
  qed
qed

lemma startup_structure_off:
  "noStructure a \<Longrightarrow> startup w a = Inr (mr, st) \<Longrightarrow> structure_off st"
  by (auto simp: startup_def Let_def structure_off_def fixRangeConversions_def structure_def
      writeAndRunCandidate_def runCandidate_def
      split: prod.splits sum.splits if_splits)

lemma reduce_structure_off:
  assumes ns: "noStructure a" and r: "reduce fuel w a = Some (Inr st)"
  shows "structure_off st"
proof -
  from r obtain mr st0 where su: "startup w a = Inr (mr, st0)"
    by (auto simp: reduce_def split: sum.splits)
  from r su obtain eo where ml: "mainLoop fuel w a mr (length (currentTest st0)) None (no_snapshots, st0)
      = Some (eo, st)" and g: "eo = None \<or> eo = Some TimeoutException"
    by (auto simp: reduce_def split: option.splits if_splits)
  have p0: "structure_off (snd (no_snapshots, st0))"
    using startup_structure_off[OF ns su] by simp
  have g': "good_exn only_timeout eo" using g by (auto simp: good_exn_def only_timeout_def)
  show ?thesis
    by (rule mainLoop_preserves[of structure_off w a only_timeout, OF _ p0 ml g'])
       (rule trial_structure_off[OF ns])
qed

text \<open>
  C10. With \<open>--noStructure\<close>, \<open>structure\<close> returns no span and the length of the candidate;
  so every run with \<open>--noStructure\<close> and without \<open>--noPad\<close> that returns 0 ends with the
  candidate of the reduction followed by exactly one zero byte, in \<open>currentTest\<close> and in the
  output file.
\<close>

theorem noStructure_output_is_candidate_plus_zero_byte:
  "structure True cur tr = Inr ([], int (length cur)) \<and>
   (noStructure a \<longrightarrow> \<not> noPad a \<longrightarrow> main fuel w a = Some (Return 0, st') \<longrightarrow>
      (\<exists>st. reduce fuel w a = Some (Inr st) \<and> st' = finalize a st \<and>
            currentTest st' = currentTest st @ [0] \<and> out st' = Some (currentTest st @ [0])))"
proof (intro conjI impI)
  show "structure True cur tr = Inr ([], int (length cur))" by (simp add: structure_def)
next
  assume ns: "noStructure a" and np: "\<not> noPad a" and m: "main fuel w a = Some (Return 0, st')"
  from main_Return0[OF m] obtain st where r: "reduce fuel w a = Some (Inr st)"
    and f: "st' = finalize a st" by blast
  from reduce_structure_off[OF ns r] have "s st = ([], int (length (currentTest st)))"
    by (simp add: structure_off_def)
  with np f have "currentTest st' = currentTest st @ [0]" "out st' = Some (currentTest st @ [0])"
    by (simp_all add: finalize_def Let_def)
  with r f show "\<exists>st. reduce fuel w a = Some (Inr st) \<and> st' = finalize a st \<and>
            currentTest st' = currentTest st @ [0] \<and> out st' = Some (currentTest st @ [0])"
    by blast
qed

theorem noStructure_output_is_candidate_plus_zero_byte_witness:
  "noStructure (default_args\<lparr>noStructure := True\<rparr>) \<and> \<not> noPad (default_args\<lparr>noStructure := True\<rparr>) \<and>
   (\<exists>st st'. main (Suc (Suc (Suc 0))) (world_reads_first_byte [5]) (default_args\<lparr>noStructure := True\<rparr>)
        = Some (Return 0, st') \<and>
      reduce (Suc (Suc (Suc 0))) (world_reads_first_byte [5]) (default_args\<lparr>noStructure := True\<rparr>)
        = Some (Inr st) \<and>
      currentTest st' = currentTest st @ [0] \<and> out st' = Some [0])"
proof -
  let ?a = "default_args\<lparr>noStructure := True\<rparr>"
  obtain st' where m: "main (Suc (Suc (Suc 0))) (world_reads_first_byte [5]) ?a = Some (Return 0, st')"
    and o: "out st' = Some [0]"
    by (simp add: run_defs world_reads_first_byte_def default_args_def)
  have h: "noStructure ?a" "\<not> noPad ?a" by (simp_all add: default_args_def)
  from noStructure_output_is_candidate_plus_zero_byte [of "[]" "[]" ?a "Suc (Suc (Suc 0))" "world_reads_first_byte [5]" st'] h m o
  show ?thesis by blast
qed

subsection \<open>Accepted mutations\<close>

lemma fixRangeConversions_length_le:
  assumes "fixRangeConversions ns t cs = Inr t'"
  shows "length t' = length t \<and> (\<forall>i<length t. t' ! i \<le> t ! i)"
proof (cases ns)
  case True
  with assms show ?thesis by (simp add: fixRangeConversions_def)
next
  case False
  with assms have "fixRangeConversions_loop t cs = Inr t'" by (simp add: fixRangeConversions_def)
  from loop_mono[OF this] show ?thesis .
qed

lemma trial_accepted:
  assumes "trial w a nt st = (Accepted u, st')"
  shows "\<exists>cs. checks (criteria a) (r st') \<and> r st' = binary w (candidateRuns st + 1) nt \<and>
     rangeConversions (r st') = Inr cs \<and>
     fixRangeConversions (noStructure a) nt cs = Inr (currentTest st') \<and>
     structure (noStructure a) (currentTest st') (r st') = Inr (s st') \<and>
     out st' = Some (currentTest st') \<and>
     history st' = history st @ [Ran nt (r st'), Wrote (currentTest st')]"
  using assms
  by (auto simp: trial_def writeAndRunCandidate_def runCandidate_def updateCurrent_def Let_def
      split: if_splits sum.splits prod.splits option.splits)

lemma sweep_accepted:
  "sweep w a ms st = (Accepted p, st') \<Longrightarrow>
   \<exists>nt cs. (p, nt) \<in> set ms \<and> checks (criteria a) (r st') \<and>
     rangeConversions (r st') = Inr cs \<and>
     fixRangeConversions (noStructure a) nt cs = Inr (currentTest st') \<and>
     out st' = Some (currentTest st')"
proof (induction ms arbitrary: st)
  case Nil
  then show ?case by simp
next
  case (Cons m ms)
  obtain q nt where m: "m = (q, nt)" by (cases m)
  obtain res st1 where t: "trial w a nt st = (res, st1)" by (cases "trial w a nt st")
  show ?case
  proof (cases res)
    case (Accepted u)
    with Cons.prems t m have e: "q = p" "st' = st1" by simp_all
    from trial_accepted[OF t[unfolded Accepted]] e m show ?thesis by auto
  next
    case NotFound
    with Cons.prems t m have "sweep w a ms st1 = (Accepted p, st')" by simp
    from Cons.IH[OF this] show ?thesis by auto
  next
    case (Raised e)
    with Cons.prems t m show ?thesis by simp
  qed
qed

text \<open>
  C7 (as the code has it). When the sweep of the OneOf removal pass accepts the removal of
  the span \<open>(4, 7)\<close> from a candidate of at least 8 bytes, the mutation run and accepted is
  the candidate without its bytes at the offsets 4 to 7, and the candidate committed and
  written is that mutation after \<open>fixRangeConversions\<close> with the conversions of the accepted
  trace: it is 4 bytes shorter than the candidate was; it is the mutation itself, so that
  no byte outside the span changed, when the trace has no conversion or with
  \<open>--noStructure\<close>; otherwise the normalization may lower bytes, never raise one.
\<close>

theorem oneOf_span_4_7_removal_commits_normalized_mutation:
  assumes sw: "sweep w a (oneOfRemovals (currentTest st) (fst (s st))) st = (Accepted (4, 7), st')"
    and len: "8 \<le> length (currentTest st)"
  shows "\<exists>cs. checks (criteria a) (r st') \<and> rangeConversions (r st') = Inr cs \<and>
     fixRangeConversions (noStructure a) (take 4 (currentTest st) @ drop 8 (currentTest st)) cs
       = Inr (currentTest st') \<and>
     length (currentTest st') + 4 = length (currentTest st) \<and>
     (noStructure a \<or> cs = [] \<longrightarrow>
        currentTest st' = take 4 (currentTest st) @ drop 8 (currentTest st)) \<and>
     (\<forall>i<length (currentTest st').
        currentTest st' ! i \<le> (take 4 (currentTest st) @ drop 8 (currentTest st)) ! i) \<and>
     out st' = Some (currentTest st')"
proof -
  from sweep_accepted[OF sw] obtain nt cs where
    mem: "((4, 7), nt) \<in> set (oneOfRemovals (currentTest st) (fst (s st)))"
    and c: "checks (criteria a) (r st')" and rc: "rangeConversions (r st') = Inr cs"
    and fx: "fixRangeConversions (noStructure a) nt cs = Inr (currentTest st')"
    and o: "out st' = Some (currentTest st')" by blast
  from mem len have nt: "nt = take 4 (currentTest st) @ drop 8 (currentTest st)"
    by (auto simp: oneOfRemovals_def slice_to_def slice_from_def py_bound_def)
  from fixRangeConversions_length_le[OF fx]
  have l: "length (currentTest st') = length nt" and le: "\<forall>i<length nt. currentTest st' ! i \<le> nt ! i"
    by simp_all
  have l4: "length nt + 4 = length (currentTest st)" using len by (simp add: nt)
  have same: "noStructure a \<or> cs = [] \<longrightarrow> currentTest st' = nt"
    using fx by (auto simp: fixRangeConversions_def split: if_splits)
  from c rc fx l le l4 same o show ?thesis unfolding nt by auto
qed

theorem oneOf_span_4_7_removal_commits_normalized_mutation_witness:
  "8 \<le> length (currentTest state_span_4_7) \<and>
   (\<exists>st'. sweep world_span_4_7 default_args
            (oneOfRemovals (currentTest state_span_4_7) (fst (s state_span_4_7))) state_span_4_7
          = (Accepted (4, 7), st') \<and>
      currentTest st' = [0, 3, 9, 9, 9, 9] \<and>
      length (currentTest st') + 4 = length (currentTest state_span_4_7))"
proof -
  obtain st' where sw: "sweep world_span_4_7 default_args
            (oneOfRemovals (currentTest state_span_4_7) (fst (s state_span_4_7))) state_span_4_7
          = (Accepted (4, 7), st')" and c: "currentTest st' = [0, 3, 9, 9, 9, 9]"
    by (simp add: run_defs world_span_4_7_def default_args_def state_span_4_7_def)
  have len: "8 \<le> length (currentTest state_span_4_7)" by (simp add: state_span_4_7_def)
  from oneOf_span_4_7_removal_commits_normalized_mutation [OF sw len] sw c len show ?thesis by blast
qed

text \<open>
  C7 as stated fails: on this run the structure of the seed has the span \<open>(4, 7)\<close>, its
  removal is accepted, and the output differs from the seed at the offsets 0 and 1,
  outside the span: the trace of the accepted candidate reports a conversion, which
  \<open>updateCurrent\<close> applies before writing.
\<close>

theorem span_removal_changes_bytes_outside_span:
  "structure False (input_test world_span_4_7) (binary world_span_4_7 1 (input_test world_span_4_7))
     = Inr ([(4, 7)], 9) \<and>
   (\<exists>st. main (Suc (Suc (Suc 0))) world_span_4_7 default_args = Some (Return 0, st) \<and>
     out st = Some [0, 3, 9, 9, 9, 9] \<and>
     history st =
       [Ran [9, 9, 9, 9, 1, 2, 3, 4, 9, 9] (binary world_span_4_7 1 [9, 9, 9, 9, 1, 2, 3, 4, 9, 9]),
        ReadInput,
        Ran [9, 9, 9, 9, 1, 2, 3, 4, 9, 9] (binary world_span_4_7 1 [9, 9, 9, 9, 1, 2, 3, 4, 9, 9]),
        Ran [9, 9, 9, 9, 9, 9] (binary world_span_4_7 1 []),
        Wrote [0, 3, 9, 9, 9, 9], Wrote [0, 3, 9, 9, 9, 9]])"
  by (simp add: run_defs world_span_4_7_def default_args_def)

text \<open>
  C2 fails on the code: the OneOf call of this test binary reads no byte, so its span is
  \<open>(-1, 5)\<close>, and \<open>currentTest[:-1] + currentTest[6:]\<close> has 13 bytes where the candidate has
  10. The pass only skips a mutation of the same length; this one is run, accepted and
  written.
\<close>

theorem oneOf_removal_grows_candidate:
  "structure False (input_test world_empty_oneof) (binary world_empty_oneof 1 (input_test world_empty_oneof))
     = Inr ([(- 1, 5)], 9) \<and>
   oneOfRemovals (input_test world_empty_oneof) [(- 1, 5)]
     = [((- 1, 5), [1, 2, 3, 4, 5, 6, 7, 8, 9, 7, 8, 9, 10])] \<and>
   (\<exists>st. main (Suc (Suc (Suc 0))) world_empty_oneof default_args = Some (Return 0, st) \<and>
     out st = Some [1, 2, 3, 4, 5, 6, 7, 8, 9, 7, 8, 9, 10] \<and>
     length (input_test world_empty_oneof) < length (currentTest st))"
  by (simp add: run_defs world_empty_oneof_def default_args_def)

text \<open>The mutations of the other shrinking passes are never longer than the candidate.\<close>

lemma banews_length: "banew \<in> set (banews x y) \<Longrightarrow> length banew \<le> 2"
  by (auto simp: banews_def split: if_splits)

lemma other_passes_never_grow:
  "(p, nt) \<in> set (chunkRemovals k cur bs) \<Longrightarrow> length nt \<le> length cur"
  "(p, nt) \<in> set (reduceAndDeletes k cur) \<Longrightarrow> length nt \<le> length cur"
  "(p, nt) \<in> set (rangeRemovals mr cur bs) \<Longrightarrow> length nt \<le> length cur"
  "(p, nt) \<in> set (byteReductions cur bs) \<Longrightarrow> length nt \<le> length cur"
  "(u, nt) \<in> set (patternReplacements cur) \<Longrightarrow> length nt \<le> length cur"
proof -
  show "(p, nt) \<in> set (chunkRemovals k cur bs) \<Longrightarrow> length nt \<le> length cur"
    by (auto simp: chunkRemovals_def)
  show "(p, nt) \<in> set (reduceAndDeletes k cur) \<Longrightarrow> length nt \<le> length cur"
    by (auto simp: reduceAndDeletes_def Let_def)
  show "(p, nt) \<in> set (rangeRemovals mr cur bs) \<Longrightarrow> length nt \<le> length cur"
    by (auto simp: rangeRemovals_def)
  show "(p, nt) \<in> set (byteReductions cur bs) \<Longrightarrow> length nt \<le> length cur"
    by (auto simp: byteReductions_def)
  show "(u, nt) \<in> set (patternReplacements cur) \<Longrightarrow> length nt \<le> length cur"
    by (auto simp: patternReplacements_def split: if_splits dest!: banews_length)
qed

subsection \<open>What is written to the output path\<close>

lemma best_known_snoc_Ran: "best_known ns x (h @ [Ran nt tr]) = best_known ns x h"
  by (induction ns x h rule: best_known.induct) simp_all

lemma best_known_snoc_pair:
  "best_known ns x (h @ [Ran nt tr, Wrote w]) =
     (case structure ns w tr of Inr sv \<Rightarrow> (w, sv) | Inl e \<Rightarrow> best_known ns x h)"
  by (induction ns x h rule: best_known.induct) (simp_all split: sum.splits)

lemma started_append:
  "started a seed h fixed sv rest \<Longrightarrow> started a seed (h @ t) fixed sv (rest @ t)"
  unfolding started_def by auto

lemma started_unique:
  "started a seed h fixed sv rest \<Longrightarrow> started a seed h fixed' sv' rest' \<Longrightarrow>
   fixed' = fixed \<and> sv' = sv \<and> rest' = rest"
  unfolding started_def by auto

lemma update_write_append:
  "i \<le> length rest \<Longrightarrow> 0 < i \<Longrightarrow> update_write a (rest @ t) i w = update_write a rest i w"
proof -
  assume "i \<le> length rest" "0 < i"
  then have "i - 1 < length rest" by simp
  then have "(rest @ t) ! (i - 1) = rest ! (i - 1)" by (simp add: nth_append)
  then show ?thesis unfolding update_write_def by simp
qed

lemma writes_pinned_snoc_Ran:
  assumes "writes_pinned a seed fixed sv rest"
  shows "writes_pinned a seed fixed sv (rest @ [Ran nt tr])"
proof -
  from assms have c: "cut_to_reach fixed (snd sv) \<noteq> seed \<longrightarrow>
         (\<exists>rest'. rest = Wrote (cut_to_reach fixed (snd sv)) # rest')"
    and p: "\<And>i w. i < length rest \<Longrightarrow> rest ! i = Wrote w \<Longrightarrow>
         (i = 0 \<and> w = cut_to_reach fixed (snd sv) \<and> w \<noteq> seed) \<or>
         (0 < i \<and> update_write a rest i w)"
    unfolding writes_pinned_def by blast+
  have c': "cut_to_reach fixed (snd sv) \<noteq> seed \<longrightarrow>
         (\<exists>rest'. rest @ [Ran nt tr] = Wrote (cut_to_reach fixed (snd sv)) # rest')"
    using c by auto
  have p': "(i = 0 \<and> w = cut_to_reach fixed (snd sv) \<and> w \<noteq> seed) \<or>
         (0 < i \<and> update_write a (rest @ [Ran nt tr]) i w)"
    if i: "i < length (rest @ [Ran nt tr])" and w: "(rest @ [Ran nt tr]) ! i = Wrote w" for i w
  proof (cases "i < length rest")
    case True
    with w have "rest ! i = Wrote w" by (simp add: nth_append)
    from p[OF True this] True show ?thesis by (auto simp: update_write_append)
  next
    case False
    with i have "i = length rest" by simp
    with w show ?thesis by simp
  qed
  show ?thesis unfolding writes_pinned_def using c' p' by blast
qed

lemma writes_pinned_snoc_pair:
  assumes "writes_pinned a seed fixed sv rest" "checks (criteria a) tr" "normalized a (nt, tr) wr"
  shows "writes_pinned a seed fixed sv (rest @ [Ran nt tr, Wrote wr])"
proof -
  let ?r = "rest @ [Ran nt tr, Wrote wr]"
  from assms have c: "cut_to_reach fixed (snd sv) \<noteq> seed \<longrightarrow>
         (\<exists>rest'. rest = Wrote (cut_to_reach fixed (snd sv)) # rest')"
    and p: "\<And>i w. i < length rest \<Longrightarrow> rest ! i = Wrote w \<Longrightarrow>
         (i = 0 \<and> w = cut_to_reach fixed (snd sv) \<and> w \<noteq> seed) \<or>
         (0 < i \<and> update_write a rest i w)"
    unfolding writes_pinned_def by blast+
  have c': "cut_to_reach fixed (snd sv) \<noteq> seed \<longrightarrow>
         (\<exists>rest'. ?r = Wrote (cut_to_reach fixed (snd sv)) # rest')"
    using c by auto
  have p': "(i = 0 \<and> w = cut_to_reach fixed (snd sv) \<and> w \<noteq> seed) \<or>
         (0 < i \<and> update_write a ?r i w)"
    if i: "i < length ?r" and w: "?r ! i = Wrote w" for i w
  proof -
    consider "i < length rest" | "i = length rest" | "i = Suc (length rest)"
      using i by (auto simp: less_Suc_eq)
    then show ?thesis
    proof cases
      case 1
      with w have "rest ! i = Wrote w" by (simp add: nth_append)
      from p[OF 1 this] 1 show ?thesis by (auto simp: update_write_append)
    next
      case 2
      with w show ?thesis by (simp add: nth_append)
    next
      case 3
      with w have "w = wr" by (simp add: nth_append)
      moreover have "?r ! (i - 1) = Ran nt tr" using 3 by (simp add: nth_append)
      ultimately have "update_write a ?r i w" using assms(2,3) unfolding update_write_def by blast
      with 3 show ?thesis by simp
    qed
  qed
  show ?thesis unfolding writes_pinned_def using c' p' by blast
qed

lemma zero_range_not_timeout: "zero_range t bs \<noteq> Inl TimeoutException"
  by (induction bs arbitrary: t) (auto split: option.splits)

lemma fixRangeConversions_loop_not_timeout:
  "fixRangeConversions_loop t cs \<noteq> Inl TimeoutException"
proof (induction t cs rule: fixRangeConversions_loop.induct)
  case (1 test)
  then show ?case by simp
next
  case (2 test pos0 pos1 v conversions)
  show ?case
  proof (cases "pos1 \<ge> int (length test)")
    case True
    then show ?thesis by simp
  next
    case nb: False
    show ?thesis
    proof (cases "v < 255")
      case False
      with nb "2.IH"(3) show ?thesis by simp
    next
      case v: True
      show ?thesis
      proof (cases "py_index (length test) pos1")
        case None
        with nb v show ?thesis by simp
      next
        case (Some e)
        show ?thesis
        proof (cases "v < uint (test ! e)")
          case False
          with nb v Some "2.IH"(2) show ?thesis by simp
        next
          case ap: True
          show ?thesis
          proof (cases pos0)
            case None
            with nb v Some ap show ?thesis by simp
          next
            case a: (Some a)
            show ?thesis
            proof (cases "zero_range test [a..pos1 - 1]")
              case (Inl x)
              with nb v Some ap a zero_range_not_timeout[of test "[a..pos1 - 1]"] show ?thesis
                by auto
            next
              case (Inr zeroed)
              show ?thesis
              proof (cases "v < 0")
                case True
                with nb v Some ap a Inr show ?thesis by simp
              next
                case False
                with nb v Some ap a Inr "2.IH"(1)[OF nb v Some ap a Inr False] show ?thesis
                  by simp
              qed
            qed
          qed
        qed
      qed
    qed
  qed
qed

lemma fixRangeConversions_not_timeout: "fixRangeConversions ns t cs \<noteq> Inl TimeoutException"
  by (simp add: fixRangeConversions_def fixRangeConversions_loop_not_timeout)

lemma structure_loop_not_timeout: "structure_loop tr os stk lr \<noteq> Inl TimeoutException"
proof (induction tr arbitrary: os stk lr)
  case Nil
  then show ?case by (cases lr) simp_all
next
  case (Cons l tr)
  show ?case
  proof (cases "last_int l")
    case (Inl x)
    then have "x \<noteq> TimeoutException" using last_int_not_timeout[of l] by auto
    then show ?thesis using Inl by (cases lr) (simp_all add: Cons.IH)
  next
    case (Inr n)
    then show ?thesis by (cases lr) (simp_all add: Cons.IH)
  qed
qed

lemma structure_not_timeout: "structure ns t tr \<noteq> Inl TimeoutException"
  by (simp add: structure_def structure_loop_not_timeout)

lemma rangeConversions_not_timeout: "rangeConversions tr \<noteq> Inl TimeoutException"
  by (simp add: rangeConversions_def rangeConversions_loop_not_timeout)

lemma trial_cases:
  assumes t: "trial w a nt st = (res, st')"
  obtains
    (timeout) "res = Raised TimeoutException" "history st' = history st"
      "currentTest st' = currentTest st" "s st' = s st" "out st' = out st"
  | (rejected) tr where "res = NotFound" "\<not> checks (criteria a) tr" "r st' = tr"
      "history st' = history st @ [Ran nt tr]"
      "currentTest st' = currentTest st" "s st' = s st" "out st' = out st"
  | (accepted) tr fixed sv where "res = Accepted ()" "checks (criteria a) tr" "r st' = tr"
      "normalized a (nt, tr) fixed" "structure (noStructure a) fixed tr = Inr sv"
      "history st' = history st @ [Ran nt tr, Wrote fixed]"
      "currentTest st' = fixed" "s st' = sv" "out st' = Some fixed"
  | (crash_before_write) tr e where "res = Raised e" "e \<noteq> TimeoutException"
      "checks (criteria a) tr" "history st' = history st @ [Ran nt tr]"
      "r st' = tr" "out st' = out st"
  | (crash_after_write) tr fixed e where "res = Raised e" "e \<noteq> TimeoutException"
      "checks (criteria a) tr" "normalized a (nt, tr) fixed"
      "history st' = history st @ [Ran nt tr, Wrote fixed]"
      "r st' = tr" "currentTest st' = fixed" "out st' = Some fixed"
proof (cases "clock w (candidateRuns st + 1) > real_of_int (timeout a)")
  case True
  with t have "st' = st\<lparr>candidateRuns := candidateRuns st + 1\<rparr>" "res = Raised TimeoutException"
    by (simp_all add: trial_def writeAndRunCandidate_def runCandidate_def Let_def)
  then show ?thesis by (intro timeout) simp_all
next
  case False
  define tr where "tr = binary w (candidateRuns st + 1) nt"
  define st2 where "st2 = st\<lparr>candidateRuns := candidateRuns st + 1,
      history := history st @ [Ran nt tr], r := tr\<rparr>"
  show ?thesis
  proof (cases "checks (criteria a) tr")
    case nc: False
    with t False have "st' = st2" "res = NotFound"
      by (simp_all add: trial_def writeAndRunCandidate_def runCandidate_def Let_def tr_def st2_def)
    then show ?thesis using nc by (intro rejected[of tr]) (simp_all add: st2_def)
  next
    case c: True
    with t False have u: "(case updateCurrent a nt st2 of
                   (Some e, st3) \<Rightarrow> (Raised e, st3)
                 | (None, st3) \<Rightarrow> (Accepted (), st3)) = (res, st')"
      by (simp add: trial_def writeAndRunCandidate_def runCandidate_def Let_def tr_def st2_def)
    show ?thesis
    proof (cases "rangeConversions tr")
      case (Inl e)
      with u have "st' = st2\<lparr>currentTest := nt\<rparr>" "res = Raised e"
        by (simp_all add: updateCurrent_def Let_def st2_def)
      moreover have "e \<noteq> TimeoutException" using Inl rangeConversions_not_timeout[of tr] by auto
      ultimately show ?thesis using c by (intro crash_before_write[of e tr]) (simp_all add: st2_def)
    next
      case (Inr cs)
      show ?thesis
      proof (cases "fixRangeConversions (noStructure a) nt cs")
        case (Inl e)
        with u Inr have "st' = st2\<lparr>currentTest := nt\<rparr>" "res = Raised e"
          by (simp_all add: updateCurrent_def Let_def st2_def)
        moreover have "e \<noteq> TimeoutException"
          using Inl fixRangeConversions_not_timeout[of "noStructure a" nt cs] by auto
        ultimately show ?thesis using c by (intro crash_before_write[of e tr]) (simp_all add: st2_def)
      next
        case fx: (Inr fixed)
        have n: "normalized a (nt, tr) fixed" using Inr fx by (simp add: normalized_def)
        define st3 where "st3 = st2\<lparr>currentTest := fixed, out := Some fixed,
            history := history st @ [Ran nt tr, Wrote fixed]\<rparr>"
        show ?thesis
        proof (cases "structure (noStructure a) fixed tr")
          case (Inl e)
          with u Inr fx have "st' = st3" "res = Raised e"
            by (simp_all add: updateCurrent_def Let_def st2_def st3_def)
          moreover have "e \<noteq> TimeoutException"
            using Inl structure_not_timeout[of "noStructure a" fixed tr] by auto
          ultimately show ?thesis using c n
            by (intro crash_after_write[of e tr fixed]) (simp_all add: st3_def st2_def)
        next
          case (Inr sv)
          with u \<open>rangeConversions tr = Inr cs\<close> fx have "st' = st3\<lparr>s := sv\<rparr>" "res = Accepted ()"
            by (simp_all add: updateCurrent_def Let_def st2_def st3_def)
          then show ?thesis using c n Inr
            by (intro accepted[of tr fixed sv]) (simp_all add: st3_def st2_def)
        qed
      qed
    qed
  qed
qed

lemma writes_ok_appendI:
  assumes st: "started a seed h fixed sv rest"
    and wp: "writes_pinned a seed fixed sv (rest @ t)"
    and h: "history st' = h @ t"
  shows "writes_ok a seed st'"
proof -
  have "started a seed (history st') fixed sv (rest @ t)"
    using started_append[OF st, of t] h by simp
  with wp show ?thesis unfolding writes_ok_def by blast
qed

lemma trial_writes_ok:
  assumes p: "writes_ok a seed st" and t: "trial w a nt st = (res, st')"
  shows "writes_ok a seed st'"
proof -
  from p obtain fixed sv rest where st: "started a seed (history st) fixed sv rest"
    and wp: "writes_pinned a seed fixed sv rest" unfolding writes_ok_def by blast
  from t show ?thesis
  proof (cases rule: trial_cases)
    case timeout
    have "started a seed (history st') fixed sv rest" using st timeout(2) by simp
    with wp show ?thesis unfolding writes_ok_def by blast
  next
    case (rejected tr)
    show ?thesis
      by (rule writes_ok_appendI[OF st writes_pinned_snoc_Ran[OF wp] rejected(4)])
  next
    case (accepted tr fx sv')
    show ?thesis
      by (rule writes_ok_appendI[OF st writes_pinned_snoc_pair[OF wp accepted(2,4)] accepted(6)])
  next
    case (crash_before_write tr e)
    show ?thesis
      by (rule writes_ok_appendI[OF st writes_pinned_snoc_Ran[OF wp] crash_before_write(4)])
  next
    case (crash_after_write tr fx e)
    show ?thesis
      by (rule writes_ok_appendI[OF st writes_pinned_snoc_pair[OF wp crash_after_write(3,4)]
            crash_after_write(5)])
  qed
qed

lemma trial_pinned:
  assumes p: "reduction_pinned a seed st" and t: "trial w a nt st = (res, st')"
    and g: "good only_timeout res"
  shows "reduction_pinned a seed st'"
proof -
  from p obtain fixed sv rest where st: "started a seed (history st) fixed sv rest"
    and wp: "writes_pinned a seed fixed sv rest"
    and bk: "(currentTest st, s st) =
           best_known (noStructure a) (cut_to_reach fixed (snd sv), sv) rest"
    unfolding reduction_pinned_def by blast
  from t show ?thesis
  proof (cases rule: trial_cases)
    case timeout
    have "started a seed (history st') fixed sv rest" using st timeout(2) by simp
    moreover have "(currentTest st', s st') =
        best_known (noStructure a) (cut_to_reach fixed (snd sv), sv) rest"
      using bk timeout(3,4) by simp
    ultimately show ?thesis using wp unfolding reduction_pinned_def by blast
  next
    case (rejected tr)
    have "started a seed (history st') fixed sv (rest @ [Ran nt tr])"
      using started_append[OF st, of "[Ran nt tr]"] rejected(4) by simp
    moreover have "writes_pinned a seed fixed sv (rest @ [Ran nt tr])"
      by (rule writes_pinned_snoc_Ran[OF wp])
    moreover have "(currentTest st', s st') =
        best_known (noStructure a) (cut_to_reach fixed (snd sv), sv) (rest @ [Ran nt tr])"
      using bk rejected(5,6) by (simp add: best_known_snoc_Ran)
    ultimately show ?thesis unfolding reduction_pinned_def by blast
  next
    case (accepted tr fx sv')
    have "started a seed (history st') fixed sv (rest @ [Ran nt tr, Wrote fx])"
      using started_append[OF st, of "[Ran nt tr, Wrote fx]"] accepted(6) by simp
    moreover have "writes_pinned a seed fixed sv (rest @ [Ran nt tr, Wrote fx])"
      by (rule writes_pinned_snoc_pair[OF wp accepted(2,4)])
    moreover have "(currentTest st', s st') =
        best_known (noStructure a) (cut_to_reach fixed (snd sv), sv) (rest @ [Ran nt tr, Wrote fx])"
      using accepted(5,7,8) by (simp add: best_known_snoc_pair)
    ultimately show ?thesis unfolding reduction_pinned_def by blast
  next
    case (crash_before_write tr e)
    with g show ?thesis by (simp add: good_def only_timeout_def)
  next
    case (crash_after_write tr fx e)
    with g show ?thesis by (simp add: good_def only_timeout_def)
  qed
qed

lemma pinned_writes_ok: "reduction_pinned a seed st \<Longrightarrow> writes_ok a seed st"
  unfolding reduction_pinned_def writes_ok_def by blast

lemma startup_Inr_parts:
  assumes "startup w a = Inr (mr, st)"
  shows "case rangeConversions (binary w (Suc 0) (input_test w)) of
      Inl e \<Rightarrow> False
    | Inr cs \<Rightarrow>
       (case fixRangeConversions (noStructure a) (input_test w) cs of
          Inl e \<Rightarrow> False
        | Inr fixed \<Rightarrow>
            checks (criteria a) (binary w (Suc (Suc 0)) fixed) \<and>
            (case structure (noStructure a) fixed (binary w (Suc 0) (input_test w)) of
               Inl e \<Rightarrow> False
             | Inr sv \<Rightarrow>
                 s st = sv \<and>
                 currentTest st =
                   (if snd sv + 1 < int (length fixed) then slice_to fixed (snd sv + 1)
                    else fixed)) \<and>
            history st = Ran (input_test w) (binary w (Suc 0) (input_test w)) # ReadInput #
                           Ran fixed (binary w (Suc (Suc 0)) fixed) #
                           (if currentTest st \<noteq> input_test w then [Wrote (currentTest st)]
                            else []))"
  using assms
  by (auto simp: startup_def Let_def writeAndRunCandidate_def runCandidate_def init_state_def
      split: prod.splits sum.splits if_splits)

lemma startup_Inl:
  assumes "startup w a = Inl (oc, st)"
  shows "\<forall>w. Wrote w \<notin> set (history st)"
  using assms
  by (auto simp: startup_def Let_def writeAndRunCandidate_def runCandidate_def init_state_def
      split: prod.splits sum.splits if_splits)

lemma writes_pinned_startup:
  "writes_pinned a seed fixed sv
     (if cut_to_reach fixed (snd sv) \<noteq> seed then [Wrote (cut_to_reach fixed (snd sv))] else [])"
  by (simp add: writes_pinned_def)

lemma best_known_startup:
  "best_known ns x (if c then [Wrote w] else []) = x"
  by simp

lemma startup_pinned:
  assumes "startup w a = Inr (mr, st)"
  shows "reduction_pinned a (input_test w) st"
proof -
  note p = startup_Inr_parts[OF assms]
  let ?t1 = "binary w (Suc 0) (input_test w)"
  from p obtain cs where cs: "rangeConversions ?t1 = Inr cs"
    by (cases "rangeConversions ?t1") simp_all
  from p cs obtain fixed where fx: "fixRangeConversions (noStructure a) (input_test w) cs = Inr fixed"
    by (cases "fixRangeConversions (noStructure a) (input_test w) cs") simp_all
  let ?t2 = "binary w (Suc (Suc 0)) fixed"
  from p cs fx obtain sv where sv: "structure (noStructure a) fixed ?t1 = Inr sv"
    by (cases "structure (noStructure a) fixed ?t1") simp_all
  let ?cut = "cut_to_reach fixed (snd sv)"
  let ?rest = "if ?cut \<noteq> input_test w then [Wrote ?cut] else []"
  from p have all: "checks (criteria a) ?t2 \<and>
      (s st = sv \<and> currentTest st =
        (if snd sv + 1 < int (length fixed) then slice_to fixed (snd sv + 1) else fixed)) \<and>
      history st = Ran (input_test w) ?t1 # ReadInput # Ran fixed ?t2 #
                           (if currentTest st \<noteq> input_test w then [Wrote (currentTest st)]
                            else [])"
    unfolding cs fx sv sum.case .
  from all have c: "checks (criteria a) ?t2" by (rule conjunct1)
  from all have ss: "s st = sv" by (rule conjunct2[THEN conjunct1, THEN conjunct1])
  from all have "currentTest st =
        (if snd sv + 1 < int (length fixed) then slice_to fixed (snd sv + 1) else fixed)"
    by (rule conjunct2[THEN conjunct1, THEN conjunct2])
  then have cur: "currentTest st = ?cut" by (simp only: cut_to_reach_def)
  from all have "history st = Ran (input_test w) ?t1 # ReadInput # Ran fixed ?t2 #
                           (if currentTest st \<noteq> input_test w then [Wrote (currentTest st)]
                            else [])"
    by (rule conjunct2[THEN conjunct2])
  then have h: "history st = Ran (input_test w) ?t1 # ReadInput # Ran fixed ?t2 # ?rest"
    by (simp only: cur)
  have n: "normalized a (input_test w, ?t1) fixed" by (simp add: normalized_def cs fx)
  have st: "started a (input_test w) (history st) fixed sv ?rest"
    unfolding started_def
    apply (rule exI[of _ ?t1])
    apply (rule exI[of _ ?t2])
    apply (intro conjI h n c sv)
    done
  have bk: "(currentTest st, s st) = best_known (noStructure a) (?cut, sv) ?rest"
    by (simp only: best_known_startup cur ss)
  show ?thesis
    unfolding reduction_pinned_def
    apply (rule exI[of _ fixed])
    apply (rule exI[of _ sv])
    apply (rule exI[of _ ?rest])
    apply (intro conjI st writes_pinned_startup bk)
    done
qed

lemma reduce_pinned:
  assumes r: "reduce fuel w a = Some (Inr st)"
  shows "reduction_pinned a (input_test w) st"
proof -
  from r obtain mr st0 where su: "startup w a = Inr (mr, st0)"
    by (auto simp: reduce_def split: sum.splits)
  from r su obtain eo where m: "mainLoop fuel w a mr (length (currentTest st0)) None (no_snapshots, st0)
        = Some (eo, st)" and g: "good_exn only_timeout eo"
    by (auto simp: reduce_def good_exn_def only_timeout_def split: option.splits if_splits)
  have p0: "reduction_pinned a (input_test w) (snd (no_snapshots, st0))" using startup_pinned[OF su] by simp
  show ?thesis
    by (rule mainLoop_preserves[of "reduction_pinned a (input_test w)" w a only_timeout, OF _ p0 m g])
       (rule trial_pinned)
qed

lemma reduce_crash_writes:
  assumes r: "reduce fuel w a = Some (Inl (oc, st))"
  shows "run_writes_ok a (input_test w) (history st)"
proof (cases "startup w a")
  case (Inl x)
  with r have "startup w a = Inl (oc, st)" by (simp add: reduce_def)
  from startup_Inl[OF this] show ?thesis unfolding run_writes_ok_def by (rule disjI1)
next
  case (Inr y)
  obtain mr st0 where y: "y = (mr, st0)" by (cases y)
  from r Inr y obtain eo where m: "mainLoop fuel w a mr (length (currentTest st0)) None (no_snapshots, st0)
        = Some (eo, st)"
    by (auto simp: reduce_def split: option.splits if_splits)
  have p0: "writes_ok a (input_test w) (snd (no_snapshots, st0))"
    using pinned_writes_ok[OF startup_pinned[OF Inr[unfolded y]]] by simp
  have g: "good_exn any_exn eo" by (simp add: good_exn_def any_exn_def split: option.splits)
  have "writes_ok a (input_test w) st"
    by (rule mainLoop_preserves[of "writes_ok a (input_test w)" w a any_exn, OF _ p0 m g])
       (rule trial_writes_ok)
  then show ?thesis unfolding run_writes_ok_def writes_ok_def by (rule disjI2)
qed

lemma finalize_writes:
  "history (finalize a st) =
     history st @ [Wrote (pad_to_reach (noPad a) (currentTest st) (snd (s st)))]"
  "out (finalize a st) = Some (pad_to_reach (noPad a) (currentTest st) (snd (s st)))"
  "currentTest (finalize a st) = pad_to_reach (noPad a) (currentTest st) (snd (s st))"
  by (auto simp: finalize_def Let_def pad_to_reach_def)

lemma main_not_Return0:
  "main fuel w a = Some (oc, st') \<Longrightarrow> oc \<noteq> Return 0 \<Longrightarrow> reduce fuel w a = Some (Inl (oc, st'))"
  by (auto simp: main_def split: option.splits sum.splits)

text \<open>
  C1 (as the code has it). The output path is written in three places only, and what is
  written is fixed by the runs before it.

  In a run of \<open>main\<close> that does not return 0, either nothing is written, or the history
  starts with the run of the seed, the reading of the seed and the run of the seed
  normalized with the conversions of its trace, which \<open>checks\<close> accepts; then, if and
  only if that normalized seed, cut to \<open>lastReadOffset + 1\<close> bytes when it is longer,
  differs from the seed, it is written, before any other run; and every later write
  comes right after the run of a candidate whose trace \<open>checks\<close> accepts, and is of
  that candidate after \<open>fixRangeConversions\<close> with the conversions of that trace.

  In a run that returns 0 the reduction ends in a state whose history is of that form,
  and whose best-known candidate and structure are those the last such write left (the
  bytes written and the structure of the trace of the run before it), or those of the
  start (the cut normalized seed and the structure of the trace of the seed) when there
  was none. Then \<open>main\<close> writes once more: that candidate, followed by the
  \<open>lastReadOffset + 1 - length\<close> zero bytes it lacks, by none with \<open>--noPad\<close>.

  And a trial changes the best-known candidate only when \<open>checks\<close> accepts the trace of the
  candidate it ran: then the candidate kept and written is the one run, normalized with
  the conversions of that trace; a trial that rejects its candidate, or that the
  timeout interrupts, leaves the candidate, the structure and the output file as they
  were; and a trial that ends with any other exception, which ends the run, raised it
  after \<open>checks\<close> accepted the trace of its candidate, and either wrote nothing or wrote
  that candidate normalized.
\<close>

theorem every_write_is_pinned:
  "(main fuel w a = Some (oc, st') \<longrightarrow> oc \<noteq> Return 0 \<longrightarrow>
      run_writes_ok a (input_test w) (history st')) \<and>
   (main fuel w a = Some (Return 0, st') \<longrightarrow>
      (\<exists>st. reduce fuel w a = Some (Inr st) \<and> reduction_pinned a (input_test w) st \<and>
         history st' = history st @ [Wrote (pad_to_reach (noPad a) (currentTest st) (snd (s st)))] \<and>
         out st' = Some (pad_to_reach (noPad a) (currentTest st) (snd (s st))))) \<and>
   (trial w a newTest st0 = (res, st1) \<longrightarrow>
      (case res of
         Accepted u \<Rightarrow>
           checks (criteria a) (r st1) \<and> normalized a (newTest, r st1) (currentTest st1) \<and>
           structure (noStructure a) (currentTest st1) (r st1) = Inr (s st1) \<and>
           out st1 = Some (currentTest st1) \<and>
           history st1 = history st0 @ [Ran newTest (r st1), Wrote (currentTest st1)]
       | NotFound \<Rightarrow>
           \<not> checks (criteria a) (r st1) \<and> history st1 = history st0 @ [Ran newTest (r st1)] \<and>
           currentTest st1 = currentTest st0 \<and> s st1 = s st0 \<and> out st1 = out st0
       | Raised e \<Rightarrow>
           if e = TimeoutException then
             history st1 = history st0 \<and>
             currentTest st1 = currentTest st0 \<and> s st1 = s st0 \<and> out st1 = out st0
           else
             checks (criteria a) (r st1) \<and>
             (history st1 = history st0 @ [Ran newTest (r st1)] \<and> out st1 = out st0 \<or>
              normalized a (newTest, r st1) (currentTest st1) \<and>
              out st1 = Some (currentTest st1) \<and>
              history st1 = history st0 @ [Ran newTest (r st1), Wrote (currentTest st1)])))"
proof (intro conjI)
  show "main fuel w a = Some (oc, st') \<longrightarrow> oc \<noteq> Return 0 \<longrightarrow>
      run_writes_ok a (input_test w) (history st')"
    using reduce_crash_writes[OF main_not_Return0] by blast
next
  show "main fuel w a = Some (Return 0, st') \<longrightarrow>
      (\<exists>st. reduce fuel w a = Some (Inr st) \<and> reduction_pinned a (input_test w) st \<and>
         history st' = history st @ [Wrote (pad_to_reach (noPad a) (currentTest st) (snd (s st)))] \<and>
         out st' = Some (pad_to_reach (noPad a) (currentTest st) (snd (s st))))"
  proof
    assume "main fuel w a = Some (Return 0, st')"
    from main_Return0[OF this] obtain st where r: "reduce fuel w a = Some (Inr st)"
      and f: "st' = finalize a st" by blast
    show "\<exists>st. reduce fuel w a = Some (Inr st) \<and> reduction_pinned a (input_test w) st \<and>
         history st' = history st @ [Wrote (pad_to_reach (noPad a) (currentTest st) (snd (s st)))] \<and>
         out st' = Some (pad_to_reach (noPad a) (currentTest st) (snd (s st)))"
      apply (rule exI[of _ st])
      apply (intro conjI r reduce_pinned[OF r])
       apply (simp_all only: f finalize_writes)
      done
  qed
next
  show "trial w a newTest st0 = (res, st1) \<longrightarrow>
      (case res of
         Accepted u \<Rightarrow>
           checks (criteria a) (r st1) \<and> normalized a (newTest, r st1) (currentTest st1) \<and>
           structure (noStructure a) (currentTest st1) (r st1) = Inr (s st1) \<and>
           out st1 = Some (currentTest st1) \<and>
           history st1 = history st0 @ [Ran newTest (r st1), Wrote (currentTest st1)]
       | NotFound \<Rightarrow>
           \<not> checks (criteria a) (r st1) \<and> history st1 = history st0 @ [Ran newTest (r st1)] \<and>
           currentTest st1 = currentTest st0 \<and> s st1 = s st0 \<and> out st1 = out st0
       | Raised e \<Rightarrow>
           if e = TimeoutException then
             history st1 = history st0 \<and>
             currentTest st1 = currentTest st0 \<and> s st1 = s st0 \<and> out st1 = out st0
           else
             checks (criteria a) (r st1) \<and>
             (history st1 = history st0 @ [Ran newTest (r st1)] \<and> out st1 = out st0 \<or>
              normalized a (newTest, r st1) (currentTest st1) \<and>
              out st1 = Some (currentTest st1) \<and>
              history st1 = history st0 @ [Ran newTest (r st1), Wrote (currentTest st1)]))"
  proof
    assume "trial w a newTest st0 = (res, st1)"
    then show "case res of
         Accepted u \<Rightarrow>
           checks (criteria a) (r st1) \<and> normalized a (newTest, r st1) (currentTest st1) \<and>
           structure (noStructure a) (currentTest st1) (r st1) = Inr (s st1) \<and>
           out st1 = Some (currentTest st1) \<and>
           history st1 = history st0 @ [Ran newTest (r st1), Wrote (currentTest st1)]
       | NotFound \<Rightarrow>
           \<not> checks (criteria a) (r st1) \<and> history st1 = history st0 @ [Ran newTest (r st1)] \<and>
           currentTest st1 = currentTest st0 \<and> s st1 = s st0 \<and> out st1 = out st0
       | Raised e \<Rightarrow>
           if e = TimeoutException then
             history st1 = history st0 \<and>
             currentTest st1 = currentTest st0 \<and> s st1 = s st0 \<and> out st1 = out st0
           else
             checks (criteria a) (r st1) \<and>
             (history st1 = history st0 @ [Ran newTest (r st1)] \<and> out st1 = out st0 \<or>
              normalized a (newTest, r st1) (currentTest st1) \<and>
              out st1 = Some (currentTest st1) \<and>
              history st1 = history st0 @ [Ran newTest (r st1), Wrote (currentTest st1)])"
      by (cases rule: trial_cases) simp_all
  qed
qed

theorem every_write_is_pinned_witness:
  "(\<exists>st'. main (Suc (Suc (Suc 0))) world_reads_three_bytes_only default_args
          = Some (Uncaught UnboundLocalError, st') \<and>
      history st' = [Ran [5, 6, 7] [''Reading byte at 0'', ''ERROR: Failed: x''], ReadInput,
                     Ran [5, 6, 7] [''Reading byte at 0'', ''ERROR: Failed: x''], Wrote [5],
                     Ran [] [''ERROR: Failed: x''], Wrote []] \<and>
      run_writes_ok default_args [5, 6, 7] (history st')) \<and>
   (\<exists>st st'. main (Suc (Suc (Suc 0))) (world_reads_first_byte [5, 6, 7]) default_args
          = Some (Return 0, st') \<and>
      reduce (Suc (Suc (Suc 0))) (world_reads_first_byte [5, 6, 7]) default_args = Some (Inr st) \<and>
      reduction_pinned default_args [5, 6, 7] st \<and> currentTest st = [] \<and> s st = ([], 0) \<and>
      history st' = [Ran [5, 6, 7] [''Reading byte at 0'', ''ERROR: Failed: x''], ReadInput,
                     Ran [5, 6, 7] [''Reading byte at 0'', ''ERROR: Failed: x''], Wrote [5],
                     Ran [] [''Reading byte at 0'', ''ERROR: Failed: x''], Wrote [],
                     Wrote (pad_to_reach False [] 0)] \<and>
      pad_to_reach False [] 0 = [0] \<and> out st' = Some [0]) \<and>
   (\<exists>st1. trial world_span_4_7 default_args [9, 9, 9, 9, 9, 9] state_span_4_7 = (Accepted (), st1) \<and>
      currentTest st1 = [0, 3, 9, 9, 9, 9] \<and>
      checks (criteria default_args) (r st1) \<and>
      normalized default_args ([9, 9, 9, 9, 9, 9], r st1) (currentTest st1) \<and>
      structure (noStructure default_args) (currentTest st1) (r st1) = Inr (s st1) \<and>
      out st1 = Some (currentTest st1) \<and>
      history st1 = history state_span_4_7 @ [Ran [9, 9, 9, 9, 9, 9] (r st1), Wrote (currentTest st1)])"
proof (intro conjI)
  let ?f = "Suc (Suc (Suc 0))"
  obtain st' where m: "main ?f world_reads_three_bytes_only default_args
          = Some (Uncaught UnboundLocalError, st')"
    and h: "history st' = [Ran [5, 6, 7] [''Reading byte at 0'', ''ERROR: Failed: x''], ReadInput,
                     Ran [5, 6, 7] [''Reading byte at 0'', ''ERROR: Failed: x''], Wrote [5],
                     Ran [] [''ERROR: Failed: x''], Wrote []]"
    by (simp add: run_defs world_reads_three_bytes_only_def default_args_def)
  have i: "input_test world_reads_three_bytes_only = [5, 6, 7]"
    by (simp add: world_reads_three_bytes_only_def)
  from every_write_is_pinned [of ?f world_reads_three_bytes_only default_args
      "Uncaught UnboundLocalError" st'] m
  have "run_writes_ok default_args [5, 6, 7] (history st')" by (simp add: i)
  with m h show "\<exists>st'. main ?f world_reads_three_bytes_only default_args
          = Some (Uncaught UnboundLocalError, st') \<and>
      history st' = [Ran [5, 6, 7] [''Reading byte at 0'', ''ERROR: Failed: x''], ReadInput,
                     Ran [5, 6, 7] [''Reading byte at 0'', ''ERROR: Failed: x''], Wrote [5],
                     Ran [] [''ERROR: Failed: x''], Wrote []] \<and>
      run_writes_ok default_args [5, 6, 7] (history st')" by blast
next
  let ?f = "Suc (Suc (Suc 0))"
  let ?w = "world_reads_first_byte [5, 6, 7]"
  obtain st st' where m: "main ?f ?w default_args = Some (Return 0, st')"
    and r: "reduce ?f ?w default_args = Some (Inr st)"
    and c: "currentTest st = []" and s: "s st = ([], 0)"
    and h: "history st = [Ran [5, 6, 7] [''Reading byte at 0'', ''ERROR: Failed: x''], ReadInput,
                       Ran [5, 6, 7] [''Reading byte at 0'', ''ERROR: Failed: x''], Wrote [5],
                       Ran [] [''Reading byte at 0'', ''ERROR: Failed: x''], Wrote []]"
    by (simp add: run_defs world_reads_first_byte_def default_args_def)
  have i: "input_test ?w = [5, 6, 7]" by (simp add: world_reads_first_byte_def)
  have np: "noPad default_args = False" by (simp add: default_args_def)
  from every_write_is_pinned [of ?f ?w default_args "Return 0" st'] m
  obtain st2 where r2: "reduce ?f ?w default_args = Some (Inr st2)"
    and e: "reduction_pinned default_args (input_test ?w) st2"
    and h': "history st' = history st2 @
        [Wrote (pad_to_reach (noPad default_args) (currentTest st2) (snd (s st2)))]"
    and o: "out st' = Some (pad_to_reach (noPad default_args) (currentTest st2) (snd (s st2)))"
    by blast
  from r r2 have eq: "st2 = st" by simp
  have p: "pad_to_reach False [] 0 = [0]" by (simp add: pad_to_reach_def)
  have e': "reduction_pinned default_args [5, 6, 7] st" using e by (simp only: eq i)
  have h'': "history st' = [Ran [5, 6, 7] [''Reading byte at 0'', ''ERROR: Failed: x''], ReadInput,
                     Ran [5, 6, 7] [''Reading byte at 0'', ''ERROR: Failed: x''], Wrote [5],
                     Ran [] [''Reading byte at 0'', ''ERROR: Failed: x''], Wrote [],
                     Wrote (pad_to_reach False [] 0)]"
    using h' by (simp only: eq np c s h snd_conv append.simps)
  have o': "out st' = Some [0]" using o by (simp only: eq np c s snd_conv p)
  show "\<exists>st st'. main ?f ?w default_args = Some (Return 0, st') \<and>
      reduce ?f ?w default_args = Some (Inr st) \<and>
      reduction_pinned default_args [5, 6, 7] st \<and> currentTest st = [] \<and> s st = ([], 0) \<and>
      history st' = [Ran [5, 6, 7] [''Reading byte at 0'', ''ERROR: Failed: x''], ReadInput,
                     Ran [5, 6, 7] [''Reading byte at 0'', ''ERROR: Failed: x''], Wrote [5],
                     Ran [] [''Reading byte at 0'', ''ERROR: Failed: x''], Wrote [],
                     Wrote (pad_to_reach False [] 0)] \<and>
      pad_to_reach False [] 0 = [0] \<and> out st' = Some [0]"
    apply (rule exI[of _ st])
    apply (rule exI[of _ st'])
    apply (intro conjI m r e' c s h'' p o')
    done
next
  obtain st1 where t: "trial world_span_4_7 default_args [9, 9, 9, 9, 9, 9] state_span_4_7 = (Accepted (), st1)"
    and c: "currentTest st1 = [0, 3, 9, 9, 9, 9]"
    by (simp add: run_defs world_span_4_7_def default_args_def state_span_4_7_def)
  from every_write_is_pinned [of _ world_span_4_7 default_args _ _ "[9, 9, 9, 9, 9, 9]"
      state_span_4_7 "Accepted ()" st1] t
  have "checks (criteria default_args) (r st1) \<and>
      normalized default_args ([9, 9, 9, 9, 9, 9], r st1) (currentTest st1) \<and>
      structure (noStructure default_args) (currentTest st1) (r st1) = Inr (s st1) \<and>
      out st1 = Some (currentTest st1) \<and>
      history st1 = history state_span_4_7 @ [Ran [9, 9, 9, 9, 9, 9] (r st1), Wrote (currentTest st1)]"
    by simp
  with t c show "\<exists>st1. trial world_span_4_7 default_args [9, 9, 9, 9, 9, 9] state_span_4_7 = (Accepted (), st1) \<and>
      currentTest st1 = [0, 3, 9, 9, 9, 9] \<and>
      checks (criteria default_args) (r st1) \<and>
      normalized default_args ([9, 9, 9, 9, 9, 9], r st1) (currentTest st1) \<and>
      structure (noStructure default_args) (currentTest st1) (r st1) = Inr (s st1) \<and>
      out st1 = Some (currentTest st1) \<and>
      history st1 = history state_span_4_7 @ [Ran [9, 9, 9, 9, 9, 9] (r st1), Wrote (currentTest st1)]"
    by blast
qed

text \<open>
  C1 as stated fails: on this run the reducer writes the one-byte candidate 5, the seed
  cut after the last byte read, and at the end the padded candidate 0; neither was ever
  run.
\<close>

theorem written_bytes_never_run:
  "\<exists>st. main (Suc (Suc (Suc 0))) (world_reads_first_byte [5, 6, 7]) default_args = Some (Return 0, st) \<and>
     history st =
       [Ran [5, 6, 7] [''Reading byte at 0'', ''ERROR: Failed: x''], ReadInput,
        Ran [5, 6, 7] [''Reading byte at 0'', ''ERROR: Failed: x''],
        Wrote [5],
        Ran [] [''Reading byte at 0'', ''ERROR: Failed: x''], Wrote [],
        Wrote [0]] \<and>
     \<not> writes_accepted default_args (history st)"
proof -
  let ?h = "[Ran [5, 6, 7] [''Reading byte at 0'', ''ERROR: Failed: x''], ReadInput,
        Ran [5, 6, 7] [''Reading byte at 0'', ''ERROR: Failed: x''],
        Wrote [5],
        Ran [] [''Reading byte at 0'', ''ERROR: Failed: x''], Wrote [],
        Wrote [0 :: byte]]"
  obtain st where m: "main (Suc (Suc (Suc 0))) (world_reads_first_byte [5, 6, 7]) default_args = Some (Return 0, st)"
    and h: "history st = ?h"
    by (simp add: run_defs world_reads_first_byte_def default_args_def)
  have "\<not> writes_accepted default_args ?h"
  proof
    assume "writes_accepted default_args ?h"
    then have "(3::nat) < length ?h \<longrightarrow> (\<forall>w. ?h ! 3 = Wrote w \<longrightarrow>
        w \<in> fst ` set (accepted_runs (criteria default_args) (take 3 ?h)))"
      unfolding writes_accepted_def by blast
    then show False by (simp add: default_args_def)
  qed
  with m h show ?thesis by auto
qed

end
